theory Spec2Isabelle
  imports Complex_Main "HOL-Library.Word" "HOL-Library.AList"
begin

unbundle bit_operations_syntax

section \<open>Python values used by gamma.py\<close>

subsection \<open>Floats\<close>

text \<open>
  A Python float is an IEEE double. Its finite values are modelled as the reals they
  denote; every arithmetic operation computes the exact real result and rounds it with
  \<open>rnd\<close>, the rounding of the platform. The C library's \<open>pow\<close> and the formatting
  \<^verbatim>\<open>f"{x:.1f}"\<close> are the two other operations the program takes from the platform.
  Infinities and NaN do not arise from the operations below on finite arguments in the
  ranges the program uses and are not modelled.
\<close>

record float_model =
  rnd :: "real \<Rightarrow> real"
  fpow :: "real \<Rightarrow> real \<Rightarrow> real"
  fmt1 :: "real \<Rightarrow> string"

datatype py_error = ZeroDivisionError | ValueError | KeyError | TypeError | JSONDecodeError

definition fadd :: "float_model \<Rightarrow> real \<Rightarrow> real \<Rightarrow> real" where
  "fadd fm a b = rnd fm (a + b)"

definition fmul :: "float_model \<Rightarrow> real \<Rightarrow> real \<Rightarrow> real" where
  "fmul fm a b = rnd fm (a * b)"

text \<open>\<^verbatim>\<open>a / b\<close> on floats raises ZeroDivisionError for a zero divisor.\<close>

definition fdiv :: "float_model \<Rightarrow> real \<Rightarrow> real \<Rightarrow> py_error + real" where
  "fdiv fm a b = (if b = 0 then Inl ZeroDivisionError else Inr (rnd fm (a / b)))"

text \<open>
  \<^verbatim>\<open>pow(x, e)\<close> on floats raises ZeroDivisionError for a zero base with a negative
  exponent, and otherwise returns what the C library computes. (The bases of this
  program are \<^verbatim>\<open>i / 255.0\<close>, never negative.)
\<close>

definition float_pow :: "float_model \<Rightarrow> real \<Rightarrow> real \<Rightarrow> py_error + real" where
  "float_pow fm x e = (if x = 0 \<and> e < 0 then Inl ZeroDivisionError else Inr (fpow fm x e))"

text \<open>\<^verbatim>\<open>int(x)\<close> truncates towards zero.\<close>

definition py_int :: "real \<Rightarrow> int" where
  "py_int x = (if 0 \<le> x then \<lfloor>x\<rfloor> else \<lceil>x\<rceil>)"

text \<open>The literals \<^verbatim>\<open>0.1\<close> and \<^verbatim>\<open>4.4\<close> are the doubles nearest to 1/10 and 44/10.\<close>

definition lit_0_1 :: "float_model \<Rightarrow> real" where
  "lit_0_1 fm = rnd fm (1 / 10)"

definition lit_4_4 :: "float_model \<Rightarrow> real" where
  "lit_4_4 fm = rnd fm (44 / 10)"

text \<open>
  What the theorems below assume of the platform, each property on its own: rounding is
  monotone, leaves a value that is already a double unchanged, represents the integers
  up to \<open>2 ^ 53\<close> exactly, and is off by at most \<open>2 ^ -37\<close> below \<open>2 ^ 17\<close> (half a unit in
  the last place there); \<open>pow\<close> is monotone in a base from \<open>[0, \<infinity>)\<close> for an exponent
  that is not negative, and \<open>pow(x, 1.0)\<close> is \<open>x\<close>.
\<close>

definition rnd_monotone :: "float_model \<Rightarrow> bool" where
  "rnd_monotone fm = (\<forall>x y. x \<le> y \<longrightarrow> rnd fm x \<le> rnd fm y)"

definition rnd_idempotent :: "float_model \<Rightarrow> bool" where
  "rnd_idempotent fm = (\<forall>x. rnd fm (rnd fm x) = rnd fm x)"

definition rnd_exact_ints :: "float_model \<Rightarrow> bool" where
  "rnd_exact_ints fm = (\<forall>n::int. \<bar>n\<bar> \<le> 2 ^ 53 \<longrightarrow> rnd fm (of_int n) = of_int n)"

definition rnd_accurate :: "float_model \<Rightarrow> bool" where
  "rnd_accurate fm = (\<forall>x. \<bar>x\<bar> \<le> 2 ^ 17 \<longrightarrow> \<bar>rnd fm x - x\<bar> \<le> 1 / 2 ^ 37)"

definition pow_monotone :: "float_model \<Rightarrow> bool" where
  "pow_monotone fm = (\<forall>e x y. 0 \<le> e \<and> 0 \<le> x \<and> x \<le> y \<longrightarrow> fpow fm x e \<le> fpow fm y e)"

definition pow_unit :: "float_model \<Rightarrow> bool" where
  "pow_unit fm = (\<forall>x. 0 \<le> x \<longrightarrow> fpow fm x 1 = x)"

text \<open>Exact arithmetic is one such platform; the examples below run on it.\<close>

definition exact_fm :: float_model where
  "exact_fm = \<lparr>rnd = (\<lambda>x. x), fpow = (\<lambda>x e. if e = 0 then 1 else x powr e),
               fmt1 = (\<lambda>x. [])\<rparr>"

section \<open>RampBuilder: \<^verbatim>\<open>_build_gamma_ramp\<close>\<close>

text \<open>
  \<^verbatim>\<open>RampArray = (ctypes.c_ushort * 256) * 3\<close>: three rows of 256 unsigned 16-bit
  values, zero when created. Storing a Python int in a \<^verbatim>\<open>c_ushort\<close> keeps its low 16
  bits.
\<close>

type_synonym ramp = "16 word list list"

definition RampArray :: ramp where
  "RampArray = replicate 3 (replicate 256 0)"

definition set_entry :: "ramp \<Rightarrow> nat \<Rightarrow> nat \<Rightarrow> 16 word \<Rightarrow> ramp" where
  "set_entry ramp c i w = ramp[c := (ramp ! c)[i := w]]"

text \<open>Lines 79 to 82: the quantised curve value \<open>v\<close> of index \<open>i\<close>.\<close>

definition curve_entry :: "float_model \<Rightarrow> real \<Rightarrow> nat \<Rightarrow> py_error + int" where
  "curve_entry fm inv_gamma i =
     (let x = rnd fm (real i / 255) in
      case float_pow fm x inv_gamma of
        Inl e \<Rightarrow> Inl e
      | Inr y \<Rightarrow>
          (let v = py_int (fadd fm (fmul fm y 65535) (1 / 2)) in
           Inr (max 0 (min 65535 v))))"

text \<open>The \<^verbatim>\<open>for i in range(256)\<close> loop, over the indices still to be visited.\<close>

fun build_loop :: "float_model \<Rightarrow> string \<Rightarrow> real \<Rightarrow> nat list \<Rightarrow> ramp \<Rightarrow> py_error + ramp" where
  "build_loop fm mode inv_gamma [] ramp = Inr ramp"
| "build_loop fm mode inv_gamma (i # rest) ramp =
     (case curve_entry fm inv_gamma i of
        Inl e \<Rightarrow> Inl e
      | Inr v \<Rightarrow>
          build_loop fm mode inv_gamma rest
            (if mode = ''blue''
             then set_entry (set_entry (set_entry ramp
                    0 i (of_nat (i * 257)))
                    1 i (of_nat (i * 257)))
                    2 i (of_int v)
             else set_entry (set_entry (set_entry ramp
                    0 i (of_int v))
                    1 i (of_int v))
                    2 i (of_int v)))"

definition build_gamma_ramp :: "float_model \<Rightarrow> string \<Rightarrow> real \<Rightarrow> py_error + ramp" where
  "build_gamma_ramp fm mode gamma =
     (case fdiv fm 1 gamma of
        Inl e \<Rightarrow> Inl e
      | Inr inv_gamma \<Rightarrow> build_loop fm mode inv_gamma [0..<256] RampArray)"

section \<open>Configuration: \<^verbatim>\<open>DEFAULT_CONFIG\<close>, \<^verbatim>\<open>load_config\<close>\<close>

text \<open>
  A parsed JSON value. A Python dict keeps its keys in insertion order, and storing
  under an existing key replaces the value where the key stands: the association list
  with \<open>AList.update\<close>.
\<close>

datatype jval =
    JNull
  | JBool bool
  | JNum real
  | JStr string
  | JArr "jval list"
  | JObj "(string \<times> jval) list"

type_synonym pydict = "(string \<times> jval) list"

definition DEFAULT_CONFIG :: pydict where
  "DEFAULT_CONFIG =
     [(''gamma'', JNum 2),
      (''color_mode'', JStr ''all''),
      (''hotkeys'', JObj [(''toggle'', JStr ''F2''), (''increase'', JStr ''F3''),
                         (''decrease'', JStr ''F4''), (''cycle_color'', JStr ''F5'')])]"

text \<open>
  The file at \<^verbatim>\<open>CONFIG_PATH\<close> as \<^verbatim>\<open>load_config\<close> finds it: absent, not JSON, or
  holding a JSON value.
\<close>

datatype config_file = NoFile | NotJson | Json jval

text \<open>\<^verbatim>\<open>{**DEFAULT_CONFIG, **json.load(f)}\<close>: the unpacking of anything but a dict raises.\<close>

definition load_config :: "config_file \<Rightarrow> py_error + pydict" where
  "load_config file =
     (case file of
        NoFile \<Rightarrow> Inr DEFAULT_CONFIG
      | NotJson \<Rightarrow> Inl JSONDecodeError
      | Json (JObj loaded) \<Rightarrow> Inr (fold (\<lambda>(k, v). AList.update k v) loaded DEFAULT_CONFIG)
      | Json _ \<Rightarrow> Inl TypeError)"

section \<open>The controller state: \<^verbatim>\<open>GammaController.__init__\<close>\<close>

record controller =
  config :: pydict
  running :: bool
  current_gamma :: real
  enabled :: bool
  color_mode :: string
  last_status :: string

text \<open>
  The state is typed: \<open>current_gamma\<close> is a float and \<open>color_mode\<close> a string, and
  \<open>JNum\<close> stands for a JSON number that Python reads as a float, or as an integer that
  a double can hold. Python stores whatever the file gives under the two keys. A start
  with a value of another type there is \<open>StartUntyped\<close> and is outside what is modelled
  below: a boolean gamma then acts as the number 0 or 1, an integer gamma beyond the
  doubles raises OverflowError at its first use, and any other value raises at its first
  use.
\<close>

datatype startup = StartRaises py_error | StartUntyped | Started controller

definition GammaController :: "config_file \<Rightarrow> startup" where
  "GammaController file =
     (case load_config file of
        Inl e \<Rightarrow> StartRaises e
      | Inr cfg \<Rightarrow>
          (case (map_of cfg ''gamma'', map_of cfg ''color_mode'') of
             (Some (JNum g), Some (JStr m)) \<Rightarrow>
               Started \<lparr>config = cfg, running = True, current_gamma = g, enabled = False,
                        color_mode = m, last_status = []\<rparr>
           | (None, _) \<Rightarrow> StartRaises KeyError
           | (_, None) \<Rightarrow> StartRaises KeyError
           | _ \<Rightarrow> StartUntyped))"

section \<open>The operating system\<close>

text \<open>
  What the Windows calls answer. \<^verbatim>\<open>EnumDisplayDevicesW(None, i, ...)\<close> succeeds for
  \<open>i\<close> below the number of display devices and fills in the \<open>i\<close>-th; \<^verbatim>\<open>CreateDCW\<close>
  and \<^verbatim>\<open>GetDC(None)\<close> return a handle, 0 when they fail; \<^verbatim>\<open>SetDeviceGammaRamp\<close>
  returns whether the ramp was installed.
\<close>

record display_device =
  DeviceName :: string
  StateFlags :: "32 word"

record os_env =
  EnumDisplayDevicesW :: "display_device list"
  CreateDCW :: "string \<Rightarrow> int"
  GetDC :: int
  SetDeviceGammaRamp :: "int \<Rightarrow> ramp \<Rightarrow> bool"

definition DISPLAY_DEVICE_ACTIVE :: "32 word" where
  "DISPLAY_DEVICE_ACTIVE = 0x00000001"

text \<open>The calls with an effect, in the order the program makes them.\<close>

datatype event =
    Call_CreateDCW string
  | Call_SetDeviceGammaRamp int ramp
  | Call_DeleteDC int
  | Call_GetDC
  | Call_ReleaseDC int
  | Write_config pydict
  | Clear_screen
  | Print string

section \<open>RampApplicator: \<^verbatim>\<open>_set_ramp_on_all_active_displays\<close>\<close>

text \<open>
  The \<^verbatim>\<open>while True\<close> loop from index \<open>i\<close>, with the flag \<open>any_applied\<close> and the calls
  made so far. The result of \<^verbatim>\<open>SetDeviceGammaRamp\<close> is not looked at.
\<close>

function enum_loop :: "os_env \<Rightarrow> ramp \<Rightarrow> nat \<Rightarrow> bool \<Rightarrow> event list \<Rightarrow> bool \<times> event list" where
  "enum_loop os ramp i any_applied calls =
     (if \<not> i < length (EnumDisplayDevicesW os) then (any_applied, calls)
      else
        (let dd = EnumDisplayDevicesW os ! i in
         if StateFlags dd AND DISPLAY_DEVICE_ACTIVE \<noteq> 0 then
           (let hdc = CreateDCW os (DeviceName dd) in
            if hdc \<noteq> 0 then
              enum_loop os ramp (i + 1) True
                (calls @ [Call_CreateDCW (DeviceName dd), Call_SetDeviceGammaRamp hdc ramp,
                          Call_DeleteDC hdc])
            else enum_loop os ramp (i + 1) any_applied (calls @ [Call_CreateDCW (DeviceName dd)]))
         else enum_loop os ramp (i + 1) any_applied calls))"
  by pat_completeness auto
termination
  by (relation "measure (\<lambda>(os, ramp, i, any_applied, calls). length (EnumDisplayDevicesW os) - i)")
     auto

declare enum_loop.simps [simp del]

definition set_ramp_on_all_active_displays :: "os_env \<Rightarrow> ramp \<Rightarrow> event list" where
  "set_ramp_on_all_active_displays os ramp =
     (case enum_loop os ramp 0 False [] of
        (any_applied, calls) \<Rightarrow>
          if \<not> any_applied then
            (let hdc = GetDC os in
             if hdc \<noteq> 0
             then calls @ [Call_GetDC, Call_SetDeviceGammaRamp hdc ramp, Call_ReleaseDC hdc]
             else calls @ [Call_GetDC])
          else calls)"

section \<open>GammaState: the methods of \<^verbatim>\<open>GammaController\<close>\<close>

text \<open>
  A method returns the object as it leaves it and the calls it made, or raises: the
  object and the calls are then those at the raise.
\<close>

datatype 's result = Ok 's "event list" | Raise py_error 's "event list"

definition then_do :: "'s result \<Rightarrow> ('s \<Rightarrow> 's result) \<Rightarrow> 's result" where
  "then_do r f =
     (case r of
        Raise e s calls \<Rightarrow> Raise e s calls
      | Ok s calls \<Rightarrow>
          (case f s of
             Raise e s' calls' \<Rightarrow> Raise e s' (calls @ calls')
           | Ok s' calls' \<Rightarrow> Ok s' (calls @ calls')))"

subsection \<open>StatusPresenter: \<^verbatim>\<open>get_status_text\<close>, \<^verbatim>\<open>update_display\<close>\<close>

text \<open>
  The texts are the UTF-8 bytes of the source's literals; two Python strings are equal
  exactly when their encodings are.
\<close>

definition utf8 :: "nat list \<Rightarrow> string" where
  "utf8 bytes = map char_of bytes"

definition status_on :: string where
  "status_on = utf8 [240, 159, 159, 162] @ '' '' @ utf8 [208, 146, 208, 154, 208, 155]"

definition status_off :: string where
  "status_off =
     utf8 [240, 159, 148, 180] @ '' '' @ utf8 [208, 146, 208, 171, 208, 154, 208, 155]"

definition text_all_colors :: string where
  "text_all_colors =
     utf8 [208, 146, 209, 129, 208, 181] @ '' '' @
     utf8 [209, 134, 208, 178, 208, 181, 209, 130, 208, 176]"

definition text_blue :: string where
  "text_blue = utf8 [208, 161, 208, 184, 208, 189, 208, 184, 208, 185]"

definition text_head :: string where
  "text_head =
     ''Gamma Controller - '' @
     utf8 [208, 160, 208, 176, 208, 177, 208, 190, 209, 130, 208, 176, 208, 181, 209, 130,
           10, 10, 208, 162, 208, 181, 208, 186, 209, 131, 209, 137, 208, 184, 208, 181] @
     '' '' @ utf8 [208, 189, 208, 176, 209, 129, 209, 130, 209, 128, 208, 190, 208, 185,
                  208, 186, 208, 184] @
     '':'' @ utf8 [10] @ ''  '' @
     utf8 [208, 161, 209, 130, 208, 176, 209, 130, 209, 131, 209, 129] @ '': ''"

definition text_gamma :: string where
  "text_gamma =
     utf8 [10] @ ''  '' @ utf8 [208, 147, 208, 176, 208, 188, 208, 188, 208, 176] @ '': ''"

definition text_color :: string where
  "text_color =
     utf8 [10] @ ''  '' @ utf8 [208, 166, 208, 178, 208, 181, 209, 130] @ '' '' @
     utf8 [208, 179, 208, 176, 208, 188, 208, 188, 209, 139] @ '': ''"

definition text_legend :: string where
  "text_legend =
     utf8 [10, 10, 208, 147, 208, 190, 209, 128, 209, 143, 209, 135, 208, 184, 208, 181] @
     '' '' @ utf8 [208, 186, 208, 187, 208, 176, 208, 178, 208, 184, 209, 136, 208, 184] @
     '':'' @ utf8 [10] @ ''  F2 - '' @ utf8 [208, 146, 208, 186, 208, 187] @ ''/'' @
     utf8 [208, 146, 209, 139, 208, 186, 208, 187, 10] @ ''  F3 - '' @
     utf8 [208, 147, 208, 176, 208, 188, 208, 188, 208, 176] @ '' +'' @ utf8 [10] @
     ''  F4 - '' @ utf8 [208, 147, 208, 176, 208, 188, 208, 188, 208, 176] @ '' -'' @
     utf8 [10] @ ''  F5 - '' @
     utf8 [208, 161, 208, 188, 208, 181, 208, 189, 208, 184, 209, 130, 209, 140] @ '' '' @
     utf8 [209, 134, 208, 178, 208, 181, 209, 130, 10, 10, 208, 148, 208, 187, 209, 143] @
     '' '' @ utf8 [208, 178, 209, 139, 209, 133, 208, 190, 208, 180, 208, 176] @ '' '' @
     utf8 [208, 183, 208, 176, 208, 186, 209, 128, 208, 190, 208, 185, 209, 130, 208, 181] @
     '' '' @ utf8 [208, 190, 208, 186, 208, 189, 208, 190]"

definition get_status_text :: "float_model \<Rightarrow> controller \<Rightarrow> string" where
  "get_status_text fm self =
     (let status_color = (if enabled self then status_on else status_off);
          color_mode_text = (if color_mode self = ''all'' then text_all_colors else text_blue)
      in text_head @ status_color @ text_gamma @ fmt1 fm (current_gamma self) @
         text_color @ color_mode_text @ text_legend)"

definition update_display :: "float_model \<Rightarrow> controller \<Rightarrow> controller result" where
  "update_display fm self =
     (let new_status = get_status_text fm self in
      if new_status \<noteq> last_status self
      then Ok (self\<lparr>last_status := new_status\<rparr>) [Clear_screen, Print new_status]
      else Ok self [])"

subsection \<open>\<^verbatim>\<open>apply_gamma\<close>, \<^verbatim>\<open>save_config\<close> and the four transitions\<close>

definition apply_gamma :: "float_model \<Rightarrow> os_env \<Rightarrow> controller \<Rightarrow> controller result" where
  "apply_gamma fm os self =
     (case (if enabled self
            then build_gamma_ramp fm (color_mode self) (current_gamma self)
            else build_gamma_ramp fm (color_mode self) 1) of
        Inl e \<Rightarrow> Raise e self []
      | Inr ramp \<Rightarrow> Ok self (set_ramp_on_all_active_displays os ramp))"

text \<open>The write of the file is taken to succeed.\<close>

definition save_config :: "controller \<Rightarrow> controller result" where
  "save_config self =
     (let cfg = AList.update ''color_mode'' (JStr (color_mode self))
                  (AList.update ''gamma'' (JNum (current_gamma self)) (config self))
      in Ok (self\<lparr>config := cfg\<rparr>) [Write_config cfg])"

definition toggle :: "float_model \<Rightarrow> os_env \<Rightarrow> controller \<Rightarrow> controller result" where
  "toggle fm os self =
     then_do (apply_gamma fm os (self\<lparr>enabled := \<not> enabled self\<rparr>)) (update_display fm)"

definition change_gamma :: "float_model \<Rightarrow> os_env \<Rightarrow> real \<Rightarrow> controller \<Rightarrow> controller result" where
  "change_gamma fm os delta self =
     (let self1 = self\<lparr>current_gamma :=
                    max (lit_0_1 fm) (min (lit_4_4 fm) (fadd fm (current_gamma self) delta))\<rparr>
      in then_do
           (then_do (if enabled self1 then apply_gamma fm os self1 else Ok self1 [])
              save_config)
           (update_display fm))"

text \<open>\<^verbatim>\<open>list.index\<close>: the first position of the element, ValueError when it is absent.\<close>

fun index :: "'a list \<Rightarrow> 'a \<Rightarrow> py_error + nat" where
  "index [] x = Inl ValueError"
| "index (y # ys) x =
     (if y = x then Inr 0
      else (case index ys x of Inl e \<Rightarrow> Inl e | Inr n \<Rightarrow> Inr (n + 1)))"

definition cycle_color_mode :: "float_model \<Rightarrow> os_env \<Rightarrow> controller \<Rightarrow> controller result" where
  "cycle_color_mode fm os self =
     (let modes = [''all'', ''blue''] in
      case index modes (color_mode self) of
        Inl e \<Rightarrow> Raise e self []
      | Inr current_idx \<Rightarrow>
          (let self1 = self\<lparr>color_mode := modes ! ((current_idx + 1) mod length modes)\<rparr>
           in then_do
                (then_do (if enabled self1 then apply_gamma fm os self1 else Ok self1 [])
                   save_config)
                (update_display fm)))"

definition reset_gamma :: "float_model \<Rightarrow> os_env \<Rightarrow> controller \<Rightarrow> controller result" where
  "reset_gamma fm os self = apply_gamma fm os (self\<lparr>enabled := False\<rparr>)"

section \<open>HotkeyPoller: the loop of \<^verbatim>\<open>main\<close>\<close>

text \<open>
  \<^verbatim>\<open>key_states\<close> maps the four key codes to what the last iteration sampled, at first
  \<^verbatim>\<open>False\<close>, which is the integer 0. One iteration asks \<^verbatim>\<open>GetAsyncKeyState\<close> once for
  each key; its answers in that iteration are a function of the key code.
\<close>

type_synonym key_states = "int \<rightharpoonup> int"

definition key_states0 :: key_states where
  "key_states0 = [0x71 \<mapsto> 0, 0x72 \<mapsto> 0, 0x73 \<mapsto> 0, 0x74 \<mapsto> 0]"

definition hotkeys :: "(int \<times> string) list" where
  "hotkeys = [(0x71, ''F2''), (0x72, ''F3''), (0x73, ''F4''), (0x74, ''F5'')]"

text \<open>Lines 204 to 211: the command of a key code.\<close>

definition dispatch :: "float_model \<Rightarrow> os_env \<Rightarrow> int \<Rightarrow> controller \<Rightarrow> controller result" where
  "dispatch fm os key_code controller =
     (if key_code = 0x71 then toggle fm os controller
      else if key_code = 0x72 then change_gamma fm os (lit_0_1 fm) controller
      else if key_code = 0x73 then change_gamma fm os (- lit_0_1 fm) controller
      else if key_code = 0x74 then cycle_color_mode fm os controller
      else Ok controller [])"

text \<open>
  Line 202, \<^verbatim>\<open>current_state and not key_states[key_code]\<close>: the dict is read only when
  \<open>current_state\<close> is not 0, and a key it does not hold raises KeyError.
\<close>

definition just_pressed :: "int \<Rightarrow> key_states \<Rightarrow> int \<Rightarrow> py_error + bool" where
  "just_pressed current_state key_states key_code =
     (if current_state \<noteq> 0
      then (case key_states key_code of
              None \<Rightarrow> Inl KeyError
            | Some previous \<Rightarrow> Inr (previous = 0))
      else Inr False)"

text \<open>Lines 200 to 213: the body of the \<^verbatim>\<open>for\<close> loop, for one key.\<close>

definition poll_key ::
  "float_model \<Rightarrow> os_env \<Rightarrow> (int \<Rightarrow> int) \<Rightarrow> int \<Rightarrow> controller \<times> key_states \<Rightarrow>
   (controller \<times> key_states) result" where
  "poll_key fm os GetAsyncKeyState key_code st =
     (case st of
        (controller, key_states) \<Rightarrow>
          (let current_state = GetAsyncKeyState key_code AND 0x8000 in
           case just_pressed current_state key_states key_code of
             Inl e \<Rightarrow> Raise e st []
           | Inr pressed_now \<Rightarrow>
               (case (if pressed_now
                      then dispatch fm os key_code controller
                      else Ok controller []) of
                  Raise e controller' calls \<Rightarrow> Raise e (controller', key_states) calls
                | Ok controller' calls \<Rightarrow>
                    Ok (controller', key_states(key_code \<mapsto> current_state)) calls)))"

fun poll_keys ::
  "float_model \<Rightarrow> os_env \<Rightarrow> (int \<Rightarrow> int) \<Rightarrow> (int \<times> string) list \<Rightarrow>
   controller \<times> key_states \<Rightarrow> (controller \<times> key_states) result" where
  "poll_keys fm os GetAsyncKeyState [] st = Ok st []"
| "poll_keys fm os GetAsyncKeyState ((key_code, key_name) # keys) st =
     then_do (poll_key fm os GetAsyncKeyState key_code st)
       (poll_keys fm os GetAsyncKeyState keys)"

text \<open>
  The \<^verbatim>\<open>while controller.running\<close> loop, over the iterations it makes before the
  interrupt that ends it: one sampling of the keys for each. The sleep between two
  iterations has no effect on the state.
\<close>

fun main_loop ::
  "float_model \<Rightarrow> os_env \<Rightarrow> (int \<Rightarrow> int) list \<Rightarrow> controller \<times> key_states \<Rightarrow>
   (controller \<times> key_states) result" where
  "main_loop fm os [] st = Ok st []"
| "main_loop fm os (GetAsyncKeyState # later) st =
     (if running (fst st)
      then then_do (poll_keys fm os GetAsyncKeyState hotkeys st) (main_loop fm os later)
      else Ok st [])"

section \<open>Notions of the specification\<close>

text \<open>A sampled key is pressed when bit 15 of the answer is set.\<close>

definition pressed :: "int \<Rightarrow> bool" where
  "pressed answer = (answer AND 0x8000 \<noteq> 0)"

text \<open>
  The transitions from not pressed to pressed between consecutive elements of a sequence
  of sampled states of one key.
\<close>

fun transitions :: "bool list \<Rightarrow> nat" where
  "transitions (before # now # later) =
     (if now \<and> \<not> before then 1 else 0) + transitions (now # later)"
| "transitions _ = 0"

text \<open>The outcome of the loop for the controller, without the loop's \<^verbatim>\<open>key_states\<close>.\<close>

fun on_controller :: "(controller \<times> key_states) result \<Rightarrow> controller result" where
  "on_controller (Ok st calls) = Ok (fst st) calls"
| "on_controller (Raise e st calls) = Raise e (fst st) calls"

text \<open>The linear ramp: \<open>i * 257\<close> at index \<open>i\<close> of each of the three rows.\<close>

definition identity_ramp :: ramp where
  "identity_ramp = replicate 3 (map (\<lambda>i. of_nat (i * 257)) [0..<256])"

fun calls_of :: "'s result \<Rightarrow> event list" where
  "calls_of (Ok s calls) = calls"
| "calls_of (Raise e s calls) = calls"

fun state_of :: "'s result \<Rightarrow> 's" where
  "state_of (Ok s calls) = s"
| "state_of (Raise e s calls) = s"

fun returns :: "'s result \<Rightarrow> bool" where
  "returns (Ok s calls) = True"
| "returns (Raise e s calls) = False"

text \<open>The ramps handed to \<^verbatim>\<open>SetDeviceGammaRamp\<close>, and the writes of the file, in order.\<close>

fun ramps_set :: "event list \<Rightarrow> ramp list" where
  "ramps_set [] = []"
| "ramps_set (Call_SetDeviceGammaRamp hdc ramp # calls) = ramp # ramps_set calls"
| "ramps_set (_ # calls) = ramps_set calls"

fun writes :: "event list \<Rightarrow> pydict list" where
  "writes [] = []"
| "writes (Write_config cfg # calls) = cfg # writes calls"
| "writes (_ # calls) = writes calls"

fun redraws :: "event list \<Rightarrow> nat" where
  "redraws [] = 0"
| "redraws (Clear_screen # calls) = 1 + redraws calls"
| "redraws (_ # calls) = redraws calls"

text \<open>
  Where the ramp builder returns, the loop has given the entry for row \<open>c\<close> and index
  \<open>i\<close> this value; a ramp has three rows of 256 entries.
\<close>

definition entry_of :: "float_model \<Rightarrow> string \<Rightarrow> real \<Rightarrow> nat \<Rightarrow> nat \<Rightarrow> 16 word" where
  "entry_of fm mode inv_gamma c i =
     (if mode = ''blue'' \<and> c \<noteq> 2 then of_nat (i * 257)
      else (case curve_entry fm inv_gamma i of Inr v \<Rightarrow> of_int v | Inl e \<Rightarrow> 0))"

definition well_shaped :: "ramp \<Rightarrow> bool" where
  "well_shaped ramp =
     (length ramp = 3 \<and> length (ramp ! 0) = 256 \<and> length (ramp ! 1) = 256 \<and>
      length (ramp ! 2) = 256)"

text \<open>Calls made one after the other, up to the first that raises.\<close>

fun run_all :: "('s \<Rightarrow> 's result) list \<Rightarrow> 's \<Rightarrow> 's result" where
  "run_all [] s = Ok s []"
| "run_all (f # fs) s = then_do (f s) (run_all fs)"

text \<open>
  A display device is active when its flag is set, and acquired when it is active and
  \<^verbatim>\<open>CreateDCW\<close> returns a handle for it. \<open>device_calls\<close> are the calls one iteration
  of the enumeration makes for a device.
\<close>

definition active :: "display_device \<Rightarrow> bool" where
  "active dd = (StateFlags dd AND DISPLAY_DEVICE_ACTIVE \<noteq> 0)"

definition acquired :: "os_env \<Rightarrow> display_device \<Rightarrow> bool" where
  "acquired os dd = (active dd \<and> CreateDCW os (DeviceName dd) \<noteq> 0)"

definition device_calls :: "os_env \<Rightarrow> ramp \<Rightarrow> display_device \<Rightarrow> event list" where
  "device_calls os ramp dd =
     (if active dd then
        (if CreateDCW os (DeviceName dd) \<noteq> 0
         then [Call_CreateDCW (DeviceName dd),
               Call_SetDeviceGammaRamp (CreateDCW os (DeviceName dd)) ramp,
               Call_DeleteDC (CreateDCW os (DeviceName dd))]
         else [Call_CreateDCW (DeviceName dd)])
      else [])"

text \<open>Environments and states for the examples.\<close>

definition no_display :: os_env where
  "no_display = \<lparr>EnumDisplayDevicesW = [], CreateDCW = (\<lambda>name. 0), GetDC = 0,
                  SetDeviceGammaRamp = (\<lambda>hdc ramp. False)\<rparr>"

definition two_displays :: os_env where
  "two_displays =
     \<lparr>EnumDisplayDevicesW =
        [\<lparr>DeviceName = ''DISPLAY1'', StateFlags = 5\<rparr>,
         \<lparr>DeviceName = ''DISPLAY2'', StateFlags = 0\<rparr>,
         \<lparr>DeviceName = ''DISPLAY3'', StateFlags = 1\<rparr>],
      CreateDCW = (\<lambda>name. if name = ''DISPLAY1'' then 0 else 44),
      GetDC = 7,
      SetDeviceGammaRamp = (\<lambda>hdc ramp. hdc = 44)\<rparr>"

definition failing_displays :: os_env where
  "failing_displays =
     \<lparr>EnumDisplayDevicesW =
        [\<lparr>DeviceName = ''DISPLAY1'', StateFlags = 5\<rparr>,
         \<lparr>DeviceName = ''DISPLAY2'', StateFlags = 0\<rparr>],
      CreateDCW = (\<lambda>name. 0),
      GetDC = 7,
      SetDeviceGammaRamp = (\<lambda>hdc ramp. True)\<rparr>"

definition default_controller :: controller where
  "default_controller =
     \<lparr>config = DEFAULT_CONFIG, running = True, current_gamma = 2, enabled = False,
      color_mode = ''all'', last_status = []\<rparr>"

definition apply_fails :: os_env where
  "apply_fails =
     \<lparr>EnumDisplayDevicesW = [\<lparr>DeviceName = ''DISPLAY1'', StateFlags = 1\<rparr>],
      CreateDCW = (\<lambda>name. 44),
      GetDC = 7,
      SetDeviceGammaRamp = (\<lambda>hdc ramp. False)\<rparr>"

text \<open>The calls of the fallback on the default display, lines 118 to 121.\<close>

definition fallback_calls :: "os_env \<Rightarrow> ramp \<Rightarrow> event list" where
  "fallback_calls os ramp =
     (if GetDC os \<noteq> 0
      then [Call_GetDC, Call_SetDeviceGammaRamp (GetDC os) ramp, Call_ReleaseDC (GetDC os)]
      else [Call_GetDC])"

text \<open>
  The key codes whose command is due, in the order of the loop: in each iteration, the
  monitored keys that are sampled pressed and were not pressed in the iteration before
  (for the first iteration, according to \<open>previous\<close>). \<open>was_pressed\<close> reads that
  from \<^verbatim>\<open>key_states\<close>.
\<close>

fun edges :: "(int \<Rightarrow> bool) \<Rightarrow> (int \<Rightarrow> int) list \<Rightarrow> int list" where
  "edges previous [] = []"
| "edges previous (answers # later) =
     filter (\<lambda>k. pressed (answers k) \<and> \<not> previous k) (map fst hotkeys) @
     edges (\<lambda>k. pressed (answers k)) later"

definition was_pressed :: "key_states \<Rightarrow> int \<Rightarrow> bool" where
  "was_pressed key_states k = (case key_states k of Some previous \<Rightarrow> previous \<noteq> 0 | None \<Rightarrow> False)"

text \<open>Samples for the examples: the key F3 is up, down, down, down, up, up.\<close>

definition key_up :: "int \<Rightarrow> int" where
  "key_up k = 0"

definition f3_down :: "int \<Rightarrow> int" where
  "f3_down k = (if k = 0x72 then 0x8001 else 0)"

definition f3_pressed_once :: "(int \<Rightarrow> int) list" where
  "f3_pressed_once = [key_up, f3_down, f3_down, f3_down, key_up, key_up]"

text \<open>The key F3 is held down when the loop starts, and one iteration runs.\<close>

definition f3_held_at_start :: "(int \<Rightarrow> int) list" where
  "f3_held_at_start = [f3_down]"

section \<open>Exact arithmetic as a platform\<close>

lemma exact_fm_monotone: "rnd_monotone exact_fm"
  by (simp add: rnd_monotone_def exact_fm_def)

lemma exact_fm_idempotent: "rnd_idempotent exact_fm"
  by (simp add: rnd_idempotent_def exact_fm_def)

lemma exact_fm_exact_ints: "rnd_exact_ints exact_fm"
  by (simp add: rnd_exact_ints_def exact_fm_def)

lemma exact_fm_accurate: "rnd_accurate exact_fm"
  by (simp add: rnd_accurate_def exact_fm_def)

lemma exact_fm_pow_monotone: "pow_monotone exact_fm"
  by (simp add: pow_monotone_def exact_fm_def powr_mono2)

lemma exact_fm_pow_unit: "pow_unit exact_fm"
  by (simp add: pow_unit_def exact_fm_def)

section \<open>Rounding\<close>

lemma rnd_int: "rnd_exact_ints fm \<Longrightarrow> \<bar>n\<bar> \<le> 2 ^ 53 \<Longrightarrow> rnd fm (of_int n) = of_int n"
  unfolding rnd_exact_ints_def by blast

lemma rnd_zero: "rnd_exact_ints fm \<Longrightarrow> rnd fm 0 = 0"
  using rnd_int [of fm 0] by simp

lemma rnd_one: "rnd_exact_ints fm \<Longrightarrow> rnd fm 1 = 1"
  using rnd_int [of fm 1] by simp

lemma rnd_mono: "rnd_monotone fm \<Longrightarrow> x \<le> y \<Longrightarrow> rnd fm x \<le> rnd fm y"
  unfolding rnd_monotone_def by blast

lemma rnd_nonneg: "rnd_monotone fm \<Longrightarrow> rnd_exact_ints fm \<Longrightarrow> 0 \<le> x \<Longrightarrow> 0 \<le> rnd fm x"
  using rnd_zero [of fm] rnd_mono [of fm 0 x] by simp

section \<open>The ramp builder\<close>

lemma length_set_entry [simp]: "length (set_entry ramp c i w) = length ramp"
  by (simp add: set_entry_def)

lemma lt3: "c < 3 \<longleftrightarrow> c = 0 \<or> c = 1 \<or> c = (2::nat)"
  by auto

lemma well_shaped_set_entry [simp]:
  "well_shaped ramp \<Longrightarrow> well_shaped (set_entry ramp c i w)"
  by (cases "c < length ramp")
     (auto simp add: well_shaped_def set_entry_def nth_list_update lt3)

lemma nth_nth_set_entry:
  "well_shaped ramp \<Longrightarrow> c < 3 \<Longrightarrow> j < 256 \<Longrightarrow>
   set_entry ramp c' i w ! c ! j = (if c = c' \<and> j = i then w else ramp ! c ! j)"
  by (cases "c' < length ramp")
     (auto simp add: well_shaped_def set_entry_def nth_list_update lt3)

lemma well_shaped_RampArray: "well_shaped RampArray"
  by (simp add: well_shaped_def RampArray_def)

text \<open>The loop writes \<open>entry_of\<close> at the indices it visits and leaves the others.\<close>

lemma build_loop_entries:
  "build_loop fm mode inv_g js ramp = Inr r \<Longrightarrow> well_shaped ramp \<Longrightarrow>
   well_shaped r \<and>
   (\<forall>c<3. \<forall>j<256. r ! c ! j = (if j \<in> set js then entry_of fm mode inv_g c j else ramp ! c ! j))"
proof (induction js arbitrary: ramp)
  case Nil
  then show ?case by simp
next
  case (Cons i js)
  from Cons.prems(1) obtain v where v: "curve_entry fm inv_g i = Inr v"
    by (auto split: sum.splits)
  let ?ramp' = "if mode = ''blue''
             then set_entry (set_entry (set_entry ramp
                    0 i (of_nat (i * 257)))
                    1 i (of_nat (i * 257)))
                    2 i (of_int v)
             else set_entry (set_entry (set_entry ramp
                    0 i (of_int v))
                    1 i (of_int v))
                    2 i (of_int v)"
  from Cons.prems(1) v have run: "build_loop fm mode inv_g js ?ramp' = Inr r" by simp
  have shape: "well_shaped ?ramp'" using Cons.prems(2) by simp
  from Cons.IH [OF run shape] have r: "well_shaped r"
    and nth: "\<And>c j. c < 3 \<Longrightarrow> j < 256 \<Longrightarrow>
       r ! c ! j = (if j \<in> set js then entry_of fm mode inv_g c j else ?ramp' ! c ! j)"
    by blast+
  have "r ! c ! j = (if j \<in> set (i # js) then entry_of fm mode inv_g c j else ramp ! c ! j)"
    if "c < 3" "j < 256" for c j
    using nth [OF that] that Cons.prems(2) v
    by (auto simp add: nth_nth_set_entry entry_of_def)
  with r show ?case by blast
qed

lemma build_loop_curve:
  "build_loop fm mode inv_g js ramp = Inr r \<Longrightarrow> j \<in> set js \<Longrightarrow>
   \<exists>v. curve_entry fm inv_g j = Inr v"
  by (induction js arbitrary: ramp) (auto split: sum.splits)

lemma build_loop_returns:
  "(\<And>j. j \<in> set js \<Longrightarrow> \<exists>v. curve_entry fm inv_g j = Inr v) \<Longrightarrow>
   \<exists>r. build_loop fm mode inv_g js ramp = Inr r"
proof (induction js arbitrary: ramp)
  case Nil
  then show ?case by simp
next
  case (Cons i js)
  from Cons.prems [of i] obtain v where "curve_entry fm inv_g i = Inr v" by auto
  moreover have "\<exists>r. build_loop fm mode inv_g js ramp' = Inr r" for ramp'
    using Cons.IH Cons.prems by simp
  ultimately show ?case by simp
qed

lemma curve_entry_returns:
  "0 \<le> inv_g \<Longrightarrow> \<exists>v. curve_entry fm inv_g i = Inr v"
  by (simp add: curve_entry_def float_pow_def Let_def)

lemma curve_entry_range:
  "curve_entry fm inv_g i = Inr v \<Longrightarrow> 0 \<le> v \<and> v \<le> 65535"
  by (auto simp add: curve_entry_def Let_def split: sum.splits)

lemma build_gamma_ramp_returns:
  assumes "rnd_monotone fm" "rnd_exact_ints fm" "0 < g"
  shows "\<exists>ramp. build_gamma_ramp fm mode g = Inr ramp"
proof -
  have "0 \<le> rnd fm (1 / g)" using assms by (simp add: rnd_nonneg)
  then have "\<exists>r. build_loop fm mode (rnd fm (1 / g)) [0..<256] RampArray = Inr r"
    by (intro build_loop_returns curve_entry_returns)
  then show ?thesis using assms(3) by (simp add: build_gamma_ramp_def fdiv_def)
qed

lemma build_gamma_ramp_entries:
  assumes "build_gamma_ramp fm mode g = Inr ramp" "c < 3" "i < 256"
  shows "ramp ! c ! i = entry_of fm mode (rnd fm (1 / g)) c i"
    and "\<exists>v. curve_entry fm (rnd fm (1 / g)) i = Inr v"
    and "well_shaped ramp"
proof -
  from assms(1) have run: "build_loop fm mode (rnd fm (1 / g)) [0..<256] RampArray = Inr ramp"
    by (auto simp add: build_gamma_ramp_def fdiv_def split: if_splits)
  from build_loop_entries [OF run well_shaped_RampArray] assms(2,3)
  show "ramp ! c ! i = entry_of fm mode (rnd fm (1 / g)) c i" "well_shaped ramp" by auto
  from build_loop_curve [OF run, of i] assms(3)
  show "\<exists>v. curve_entry fm (rnd fm (1 / g)) i = Inr v" by simp
qed

lemma unat_identity_entry: "i < 256 \<Longrightarrow> unat (of_nat (i * 257) :: 16 word) = i * 257"
  by (simp del: of_nat_mult add: unat_of_nat)

text \<open>
  C4. In mode \<^verbatim>\<open>"blue"\<close>, whatever the gamma, a ramp the builder returns holds
  \<open>i * 257\<close> in its red and its green row at every index \<open>i\<close> below 256, and in its
  blue row the quantised curve value of the index. The builder returns a ramp for every
  gamma above 0, so for every gamma of the domain from 0.1 to 4.4. (For the gamma 0 the
  division \<^verbatim>\<open>1.0 / gamma\<close> raises.)
\<close>

theorem blue_only_red_green_linear:
  assumes "i < 256"
  shows "(\<forall>ramp. build_gamma_ramp fm ''blue'' g = Inr ramp \<longrightarrow>
            unat (ramp ! 0 ! i) = i * 257 \<and> unat (ramp ! 1 ! i) = i * 257 \<and>
            (\<exists>v. curve_entry fm (rnd fm (1 / g)) i = Inr v \<and> ramp ! 2 ! i = of_int v)) \<and>
         (rnd_monotone fm \<and> rnd_exact_ints fm \<and> 0 < g \<longrightarrow>
            (\<exists>ramp. build_gamma_ramp fm ''blue'' g = Inr ramp))"
proof (intro conjI allI impI)
  fix ramp
  assume ramp: "build_gamma_ramp fm ''blue'' g = Inr ramp"
  from build_gamma_ramp_entries(2) [OF ramp _ assms, of 0]
  obtain v where v: "curve_entry fm (rnd fm (1 / g)) i = Inr v" by auto
  show "unat (ramp ! 0 ! i) = i * 257"
    using build_gamma_ramp_entries(1) [OF ramp _ assms, of 0] assms
    by (simp del: of_nat_mult add: entry_of_def unat_identity_entry)
  show "unat (ramp ! 1 ! i) = i * 257"
    using build_gamma_ramp_entries(1) [OF ramp _ assms, of 1] assms
    by (simp del: of_nat_mult add: entry_of_def unat_identity_entry)
  have "ramp ! 2 ! i = of_int v"
    using build_gamma_ramp_entries(1) [OF ramp _ assms, of 2] v
    by (simp add: entry_of_def)
  with v show "\<exists>v. curve_entry fm (rnd fm (1 / g)) i = Inr v \<and> ramp ! 2 ! i = of_int v"
    by blast
next
  assume "rnd_monotone fm \<and> rnd_exact_ints fm \<and> 0 < g"
  then show "\<exists>ramp. build_gamma_ramp fm ''blue'' g = Inr ramp"
    by (simp add: build_gamma_ramp_returns)
qed

theorem blue_only_red_green_linear_witness:
  "(5::nat) < 256 \<and> rnd_monotone exact_fm \<and> rnd_exact_ints exact_fm \<and> (0::real) < 2 \<and>
   (\<exists>ramp v. build_gamma_ramp exact_fm ''blue'' 2 = Inr ramp \<and>
      unat (ramp ! 0 ! 5) = 1285 \<and> unat (ramp ! 1 ! 5) = 1285 \<and>
      curve_entry exact_fm (rnd exact_fm (1 / 2)) 5 = Inr v \<and> ramp ! 2 ! 5 = of_int v)"
proof -
  have i: "(5::nat) < 256" by simp
  note inst = blue_only_red_green_linear [OF i, of exact_fm 2]
  from inst exact_fm_monotone exact_fm_exact_ints
  obtain ramp where ramp: "build_gamma_ramp exact_fm ''blue'' 2 = Inr ramp" by auto
  with inst have "unat (ramp ! 0 ! 5) = 5 * 257 \<and> unat (ramp ! 1 ! 5) = 5 * 257 \<and>
      (\<exists>v. curve_entry exact_fm (rnd exact_fm (1 / 2)) 5 = Inr v \<and> ramp ! 2 ! 5 = of_int v)"
    by blast
  with ramp show ?thesis using exact_fm_monotone exact_fm_exact_ints by auto
qed

section \<open>The curve\<close>

lemma py_int_mono: "x \<le> y \<Longrightarrow> py_int x \<le> py_int y"
proof -
  assume xy: "x \<le> y"
  consider "0 \<le> x" | "x < 0" "0 \<le> y" | "y < 0" using xy by linarith
  then show ?thesis
  proof cases
    case 1
    then show ?thesis using xy by (simp add: py_int_def floor_mono)
  next
    case 2
    then have "py_int x = \<lceil>x\<rceil>" "py_int y = \<lfloor>y\<rfloor>" by (simp_all add: py_int_def)
    moreover from 2 have "\<lceil>x\<rceil> \<le> 0" "0 \<le> \<lfloor>y\<rfloor>" by simp_all
    ultimately show ?thesis by linarith
  next
    case 3
    then show ?thesis using xy by (simp add: py_int_def ceiling_mono)
  qed
qed

lemma pow_mono: "pow_monotone fm \<Longrightarrow> 0 \<le> e \<Longrightarrow> 0 \<le> x \<Longrightarrow> x \<le> y \<Longrightarrow> fpow fm x e \<le> fpow fm y e"
  unfolding pow_monotone_def by blast

lemma curve_entry_mono:
  assumes "rnd_monotone fm" "rnd_exact_ints fm" "pow_monotone fm" "0 \<le> inv_g" "i \<le> j"
    and "curve_entry fm inv_g i = Inr v" "curve_entry fm inv_g j = Inr w"
  shows "v \<le> w"
proof -
  let ?x = "rnd fm (real i / 255)" and ?y = "rnd fm (real j / 255)"
  have x0: "0 \<le> ?x" using assms(1,2) by (simp add: rnd_nonneg)
  have xy: "?x \<le> ?y" using assms(1,5) by (simp add: rnd_mono divide_right_mono)
  have "fpow fm ?x inv_g \<le> fpow fm ?y inv_g"
    using assms(3,4) x0 xy by (rule pow_mono)
  then have "fmul fm (fpow fm ?x inv_g) 65535 \<le> fmul fm (fpow fm ?y inv_g) 65535"
    using assms(1) by (simp add: fmul_def rnd_mono)
  then have "fadd fm (fmul fm (fpow fm ?x inv_g) 65535) (1 / 2)
     \<le> fadd fm (fmul fm (fpow fm ?y inv_g) 65535) (1 / 2)"
    using assms(1) by (simp add: fadd_def rnd_mono)
  then have "py_int (fadd fm (fmul fm (fpow fm ?x inv_g) 65535) (1 / 2))
     \<le> py_int (fadd fm (fmul fm (fpow fm ?y inv_g) 65535) (1 / 2))"
    by (rule py_int_mono)
  moreover have "v = max 0 (min 65535 (py_int (fadd fm (fmul fm (fpow fm ?x inv_g) 65535) (1 / 2))))"
    using assms(4,6) by (simp add: curve_entry_def float_pow_def Let_def)
  moreover have "w = max 0 (min 65535 (py_int (fadd fm (fmul fm (fpow fm ?y inv_g) 65535) (1 / 2))))"
    using assms(4,7) by (simp add: curve_entry_def float_pow_def Let_def)
  ultimately show ?thesis by simp
qed

lemma of_int_16_mono:
  "0 \<le> v \<Longrightarrow> v \<le> w \<Longrightarrow> w \<le> 65535 \<Longrightarrow> (of_int v :: 16 word) \<le> of_int w"
  by (simp add: word_le_def uint_word_of_int)

lemma of_nat_16_mono:
  "i \<le> j \<Longrightarrow> j < 256 \<Longrightarrow> (of_nat (i * 257) :: 16 word) \<le> of_nat (j * 257)"
  by (simp del: of_nat_mult add: word_le_nat_alt unat_identity_entry)

lemma rnd_close:
  assumes "rnd_accurate fm" and "\<bar>x\<bar> \<le> 131072"
  shows "x - 1 / 137438953472 \<le> rnd fm x" and "rnd fm x \<le> x + 1 / 137438953472"
proof -
  have "\<bar>rnd fm x - x\<bar> \<le> 1 / 2 ^ 37"
    using assms unfolding rnd_accurate_def by simp
  moreover have "(1::real) / 2 ^ 37 = 1 / 137438953472" by simp
  ultimately have "\<bar>rnd fm x - x\<bar> \<le> 1 / 137438953472" by (simp only:)
  then show "x - 1 / 137438953472 \<le> rnd fm x" and "rnd fm x \<le> x + 1 / 137438953472"
    by linarith+
qed

lemma lit_0_1_pos: "rnd_accurate fm \<Longrightarrow> 0 < lit_0_1 fm"
  using rnd_close(1) [of fm "1 / 10"] by (simp add: lit_0_1_def)

text \<open>
  C2. For every gamma from 0.1 to 4.4 and every colour mode the builder returns a ramp, and
  in each of its three rows the entry at index \<open>i\<close> is at most the entry at index \<open>j\<close>
  whenever \<open>i \<le> j \<le> 255\<close>. (Entries are compared as unsigned 16-bit values.)
\<close>

theorem ramp_rows_monotone:
  assumes "rnd_monotone fm" and "rnd_exact_ints fm" and "rnd_accurate fm" and "pow_monotone fm"
    and "lit_0_1 fm \<le> g" and "g \<le> lit_4_4 fm"
    and "c < 3" and "i \<le> j" and "j < 256"
  shows "\<exists>ramp. build_gamma_ramp fm mode g = Inr ramp \<and> ramp ! c ! i \<le> ramp ! c ! j"
proof -
  have g: "0 < g" using lit_0_1_pos [OF assms(3)] assms(5) by simp
  from build_gamma_ramp_returns [OF assms(1,2) g]
  obtain ramp where ramp: "build_gamma_ramp fm mode g = Inr ramp" by blast
  let ?inv = "rnd fm (1 / g)"
  have inv: "0 \<le> ?inv" using assms(1,2) g by (simp add: rnd_nonneg)
  have i: "i < 256" using assms(8,9) by simp
  from build_gamma_ramp_entries(2) [OF ramp assms(7) i]
  obtain v where v: "curve_entry fm ?inv i = Inr v" by blast
  from build_gamma_ramp_entries(2) [OF ramp assms(7,9)]
  obtain w where w: "curve_entry fm ?inv j = Inr w" by blast
  have vw: "v \<le> w" using assms(1,2,4) inv assms(8) v w by (rule curve_entry_mono)
  have "entry_of fm mode ?inv c i \<le> entry_of fm mode ?inv c j"
    using vw v w curve_entry_range [OF v] curve_entry_range [OF w] assms(8,9)
    by (simp del: of_nat_mult add: entry_of_def of_int_16_mono of_nat_16_mono)
  then show ?thesis
    using ramp build_gamma_ramp_entries(1) [OF ramp assms(7) i]
      build_gamma_ramp_entries(1) [OF ramp assms(7,9)] by auto
qed


lemma build_gamma_ramp_returns_if:
  assumes "g \<noteq> 0" "0 \<le> rnd fm (1 / g)"
  shows "\<exists>ramp. build_gamma_ramp fm mode g = Inr ramp"
proof -
  have "\<exists>r. build_loop fm mode (rnd fm (1 / g)) [0..<256] RampArray = Inr r"
    using assms(2) by (intro build_loop_returns curve_entry_returns)
  then show ?thesis using assms(1) by (simp add: build_gamma_ramp_def fdiv_def)
qed

lemma neutral_curve:
  assumes "rnd_accurate fm" and "rnd_exact_ints fm" and "pow_unit fm" and "i < 256"
  shows "curve_entry fm 1 i = Inr (int i * 257)"
proof -
  define x where "x = rnd fm (real i / 255)"
  define m where "m = rnd fm (x * 65535)"
  define s where "s = rnd fm (m + 1 / 2)"
  have i: "real i \<le> 255" using assms(4) by simp
  have x: "real i / 255 - 1 / 137438953472 \<le> x" "x \<le> real i / 255 + 1 / 137438953472"
    unfolding x_def using i by (intro rnd_close [OF assms(1)]; simp)+
  have x0: "0 \<le> x"
  proof (cases "i = 0")
    case True
    then show ?thesis using rnd_zero [OF assms(2)] by (simp add: x_def)
  next
    case False
    then have "1 \<le> real i" by simp
    then show ?thesis using x(1) by simp
  qed
  have x1: "x \<le> 2" using x(2) i by simp
  have m: "x * 65535 - 1 / 137438953472 \<le> m" "m \<le> x * 65535 + 1 / 137438953472"
    unfolding m_def using x0 x1 by (intro rnd_close [OF assms(1)]; simp)+
  have m1: "0 \<le> m + 1 / 2" "m + 1 / 2 \<le> 131072" using m x0 x1 by simp_all
  have s: "m + 1 / 2 - 1 / 137438953472 \<le> s" "s \<le> m + 1 / 2 + 1 / 137438953472"
    unfolding s_def using m1 by (intro rnd_close [OF assms(1)]; simp)+
  have lo: "real_of_int (int i * 257) \<le> s" using s(1) m(1) x(1) by simp
  have hi: "s < real_of_int (int i * 257) + 1" using s(2) m(2) x(2) by simp
  have "\<lfloor>s\<rfloor> = int i * 257" using lo hi by (rule floor_unique)
  moreover have "0 \<le> s" using lo by (smt (verit) of_int_nonneg of_nat_0_le_iff zero_le_mult_iff)
  ultimately have "py_int s = int i * 257" by (simp add: py_int_def)
  moreover have "fpow fm x 1 = x" using assms(3) x0 by (simp add: pow_unit_def)
  ultimately show ?thesis using assms(4)
    by (simp add: curve_entry_def float_pow_def Let_def fadd_def fmul_def x_def m_def s_def)
qed


theorem ramp_rows_monotone_witness:
  "rnd_monotone exact_fm \<and> rnd_exact_ints exact_fm \<and> rnd_accurate exact_fm \<and>
   pow_monotone exact_fm \<and> lit_0_1 exact_fm \<le> 2 \<and> 2 \<le> lit_4_4 exact_fm \<and>
   (0::nat) < 3 \<and> (3::nat) \<le> 7 \<and> (7::nat) < 256 \<and>
   (\<exists>ramp. build_gamma_ramp exact_fm ''all'' 2 = Inr ramp \<and> ramp ! 0 ! 3 \<le> ramp ! 0 ! 7)"
proof -
  have range: "lit_0_1 exact_fm \<le> 2" "2 \<le> lit_4_4 exact_fm"
    by (simp_all add: lit_0_1_def lit_4_4_def exact_fm_def)
  from ramp_rows_monotone [OF exact_fm_monotone exact_fm_exact_ints exact_fm_accurate
      exact_fm_pow_monotone range, of 0 3 7 "''all''"]
  show ?thesis
    using exact_fm_monotone exact_fm_exact_ints exact_fm_accurate exact_fm_pow_monotone range
    by simp
qed

lemma uint_of_int_16: "0 \<le> v \<Longrightarrow> v \<le> 65535 \<Longrightarrow> uint (of_int v :: 16 word) = v"
  by (simp add: uint_word_of_int)

text \<open>
  C3. With gamma 1.0 and mode \<^verbatim>\<open>"all"\<close> the builder returns a ramp whose three rows hold
  \<open>round (i / 255 * 65535)\<close> at every index \<open>i\<close> below 256, with 0 at index 0 and
  65535 at index 255.
\<close>

theorem neutral_ramp_is_rounded_identity:
  assumes "rnd_accurate fm" and "rnd_exact_ints fm" and "pow_unit fm" and "c < 3" and "i < 256"
  shows "\<exists>ramp. build_gamma_ramp fm ''all'' 1 = Inr ramp \<and>
           uint (ramp ! c ! i) = round (real i / 255 * 65535) \<and>
           uint (ramp ! c ! 0) = 0 \<and> uint (ramp ! c ! 255) = 65535"
proof -
  have one: "rnd fm (1 / 1) = 1" using rnd_one [OF assms(2)] by simp
  then have "\<exists>ramp. build_gamma_ramp fm ''all'' 1 = Inr ramp"
    by (intro build_gamma_ramp_returns_if) simp_all
  then obtain ramp where ramp: "build_gamma_ramp fm ''all'' 1 = Inr ramp" by blast
  have entry: "uint (ramp ! c ! k) = int k * 257" if "k < 256" for k
  proof -
    have "ramp ! c ! k = of_int (int k * 257)"
      using build_gamma_ramp_entries(1) [OF ramp assms(4) that]
        neutral_curve [OF assms(1-3) that] one
      by (simp add: entry_of_def)
    moreover have "uint (of_int (int k * 257) :: 16 word) = int k * 257"
      using that by (intro uint_of_int_16) simp_all
    ultimately show ?thesis by (simp only:)
  qed
  have "real i / 255 * 65535 = real_of_int (int i * 257)" by simp
  then have "round (real i / 255 * 65535) = int i * 257" by (simp only: round_of_int)
  then show ?thesis using ramp entry [OF assms(5)] entry [of 0] entry [of 255] by simp
qed

theorem neutral_ramp_is_rounded_identity_witness:
  "rnd_accurate exact_fm \<and> rnd_exact_ints exact_fm \<and> pow_unit exact_fm \<and>
   (2::nat) < 3 \<and> (128::nat) < 256 \<and>
   (\<exists>ramp. build_gamma_ramp exact_fm ''all'' 1 = Inr ramp \<and>
      uint (ramp ! 2 ! 128) = round (real 128 / 255 * 65535) \<and>
      uint (ramp ! 2 ! 0) = 0 \<and> uint (ramp ! 2 ! 255) = 65535)"
  using neutral_ramp_is_rounded_identity [OF exact_fm_accurate exact_fm_exact_ints
      exact_fm_pow_unit, of 2 128]
    exact_fm_accurate exact_fm_exact_ints exact_fm_pow_unit
  by simp

section \<open>Sequencing\<close>

lemma returns_then_do: "returns (then_do r f) \<longleftrightarrow> returns r \<and> returns (f (state_of r))"
  by (cases r; cases "f (state_of r)") (simp_all add: then_do_def)

lemma state_of_then_do:
  "state_of (then_do r f) = (if returns r then state_of (f (state_of r)) else state_of r)"
  by (cases r; cases "f (state_of r)") (simp_all add: then_do_def)

lemma calls_of_then_do:
  "calls_of (then_do r f) =
     (if returns r then calls_of r @ calls_of (f (state_of r)) else calls_of r)"
  by (cases r; cases "f (state_of r)") (simp_all add: then_do_def)

section \<open>The methods\<close>

lemma state_of_apply_gamma [simp]: "state_of (apply_gamma fm os self) = self"
  by (simp add: apply_gamma_def split: sum.splits)

lemma returns_apply_gamma:
  "returns (apply_gamma fm os self) \<longleftrightarrow>
     (\<exists>ramp. build_gamma_ramp fm (color_mode self) (if enabled self then current_gamma self else 1) = Inr ramp)"
  by (auto simp add: apply_gamma_def split: sum.splits)

lemma returns_save_config [simp]: "returns (save_config self)"
  by (simp add: save_config_def Let_def)

lemma returns_update_display [simp]: "returns (update_display fm self)"
  by (simp add: update_display_def Let_def)

lemma gamma_save_config [simp]:
  "current_gamma (state_of (save_config self)) = current_gamma self"
  by (simp add: save_config_def Let_def)

lemma gamma_update_display [simp]:
  "current_gamma (state_of (update_display fm self)) = current_gamma self"
  by (simp add: update_display_def Let_def)

lemma gamma_change_gamma:
  "current_gamma (state_of (change_gamma fm os delta self)) =
     max (lit_0_1 fm) (min (lit_4_4 fm) (fadd fm (current_gamma self) delta))"
  by (simp add: change_gamma_def Let_def state_of_then_do returns_then_do)

lemma lit_order: "rnd_monotone fm \<Longrightarrow> lit_0_1 fm \<le> lit_4_4 fm"
  by (simp add: lit_0_1_def lit_4_4_def rnd_mono)

lemma gamma_change_gamma_range:
  assumes "rnd_monotone fm"
  shows "lit_0_1 fm \<le> current_gamma (state_of (change_gamma fm os delta self))"
    and "current_gamma (state_of (change_gamma fm os delta self)) \<le> lit_4_4 fm"
  using lit_order [OF assms] by (simp_all add: gamma_change_gamma)

lemma returns_change_gamma:
  assumes "rnd_monotone fm" "rnd_exact_ints fm" "rnd_accurate fm"
  shows "returns (change_gamma fm os delta self)"
proof -
  let ?g = "max (lit_0_1 fm) (min (lit_4_4 fm) (fadd fm (current_gamma self) delta))"
  have "0 < ?g" using lit_0_1_pos [OF assms(3)] by simp
  from build_gamma_ramp_returns [OF assms(1,2) this]
  show ?thesis
    by (simp add: change_gamma_def Let_def returns_then_do returns_apply_gamma)
qed


lemma returns_run_all:
  "(\<And>f s. f \<in> set fs \<Longrightarrow> returns (f s)) \<Longrightarrow> returns (run_all fs s)"
  by (induction fs arbitrary: s) (simp_all add: returns_then_do)

lemma run_all_invariant:
  assumes "\<And>f s. f \<in> set fs \<Longrightarrow> P s \<Longrightarrow> P (state_of (f s))" and "P s"
  shows "P (state_of (run_all fs s))"
  using assms
proof (induction fs arbitrary: s)
  case Nil
  then show ?case by simp
next
  case (Cons f fs)
  have step: "P (state_of (f s))" using Cons.prems by simp
  show ?case
  proof (cases "returns (f s)")
    case True
    have "P (state_of (run_all fs (state_of (f s))))"
      using Cons.prems(1) step by (intro Cons.IH) simp_all
    then show ?thesis using True by (simp add: state_of_then_do)
  next
    case False
    then show ?thesis using step by (simp add: state_of_then_do)
  qed
qed

lemma gamma_stays_at_maximum:
  assumes "rnd_monotone fm" "rnd_idempotent fm" "rnd_exact_ints fm"
    and "current_gamma self = lit_4_4 fm"
  shows "current_gamma (state_of (change_gamma fm os (lit_0_1 fm) self)) = lit_4_4 fm"
proof -
  have "0 \<le> lit_0_1 fm" using assms(1,3) by (simp add: lit_0_1_def rnd_nonneg)
  then have "rnd fm (lit_4_4 fm) \<le> rnd fm (lit_4_4 fm + lit_0_1 fm)"
    using assms(1) by (simp add: rnd_mono)
  moreover have "rnd fm (lit_4_4 fm) = lit_4_4 fm"
    using assms(2) by (simp add: lit_4_4_def rnd_idempotent_def)
  ultimately have "lit_4_4 fm \<le> fadd fm (current_gamma self) (lit_0_1 fm)"
    using assms(4) by (simp add: fadd_def)
  then show ?thesis using lit_order [OF assms(1)] by (simp add: gamma_change_gamma)
qed

text \<open>
  C5. From a gamma between 0.1 and 4.4, every sequence of \<^verbatim>\<open>change_gamma\<close> calls (with
  steps of +0.1 and -0.1, or any others) returns and leaves the gamma between 0.1 and
  4.4; from 4.4, ten calls with +0.1 leave it at 4.4.
\<close>

theorem change_gamma_stays_in_range:
  assumes "rnd_monotone fm" and "rnd_idempotent fm" and "rnd_exact_ints fm"
    and "rnd_accurate fm"
    and "lit_0_1 fm \<le> current_gamma self" and "current_gamma self \<le> lit_4_4 fm"
    and "set deltas \<subseteq> {lit_0_1 fm, - lit_0_1 fm}"
  shows "returns (run_all (map (change_gamma fm os) deltas) self) \<and>
         lit_0_1 fm \<le> current_gamma (state_of (run_all (map (change_gamma fm os) deltas) self)) \<and>
         current_gamma (state_of (run_all (map (change_gamma fm os) deltas) self)) \<le> lit_4_4 fm \<and>
         (current_gamma self = lit_4_4 fm \<longrightarrow>
          current_gamma
            (state_of (run_all (replicate 10 (change_gamma fm os (lit_0_1 fm))) self)) =
          lit_4_4 fm)"
proof -
  let ?in_range = "\<lambda>s. lit_0_1 fm \<le> current_gamma s \<and> current_gamma s \<le> lit_4_4 fm"
  have "returns (run_all (map (change_gamma fm os) deltas) self)"
    using returns_change_gamma [OF assms(1,3,4)] by (intro returns_run_all) auto
  moreover have "?in_range (state_of (run_all (map (change_gamma fm os) deltas) self))"
    using assms(5,6) gamma_change_gamma_range [OF assms(1)]
    by (intro run_all_invariant [where P = ?in_range]) auto
  moreover have "current_gamma
      (state_of (run_all (replicate 10 (change_gamma fm os (lit_0_1 fm))) self)) = lit_4_4 fm"
    if "current_gamma self = lit_4_4 fm"
    using that gamma_stays_at_maximum [OF assms(1-3)]
    by (intro run_all_invariant [where P = "\<lambda>s. current_gamma s = lit_4_4 fm"]) auto
  ultimately show ?thesis by blast
qed

theorem change_gamma_stays_in_range_witness:
  "rnd_monotone exact_fm \<and> rnd_idempotent exact_fm \<and> rnd_exact_ints exact_fm \<and>
   rnd_accurate exact_fm \<and>
   (let os = \<lparr>EnumDisplayDevicesW = [], CreateDCW = (\<lambda>name. 0), GetDC = 0,
              SetDeviceGammaRamp = (\<lambda>hdc ramp. False)\<rparr>;
        self = \<lparr>config = DEFAULT_CONFIG, running = True, current_gamma = lit_4_4 exact_fm,
                 enabled = False, color_mode = ''all'', last_status = []\<rparr>;
        deltas = [lit_0_1 exact_fm, - lit_0_1 exact_fm, lit_0_1 exact_fm]
    in lit_0_1 exact_fm \<le> current_gamma self \<and> current_gamma self \<le> lit_4_4 exact_fm \<and>
       set deltas \<subseteq> {lit_0_1 exact_fm, - lit_0_1 exact_fm} \<and>
       returns (run_all (map (change_gamma exact_fm os) deltas) self) \<and>
       lit_0_1 exact_fm
         \<le> current_gamma (state_of (run_all (map (change_gamma exact_fm os) deltas) self)) \<and>
       current_gamma (state_of (run_all (map (change_gamma exact_fm os) deltas) self))
         \<le> lit_4_4 exact_fm \<and>
       current_gamma self = lit_4_4 exact_fm \<and>
       current_gamma
         (state_of (run_all (replicate 10 (change_gamma exact_fm os (lit_0_1 exact_fm))) self)) =
       lit_4_4 exact_fm)"
proof -
  define os where "os = \<lparr>EnumDisplayDevicesW = [], CreateDCW = (\<lambda>name. 0), GetDC = 0,
              SetDeviceGammaRamp = (\<lambda>hdc ramp. False)\<rparr>"
  define self where "self = \<lparr>config = DEFAULT_CONFIG, running = True,
     current_gamma = lit_4_4 exact_fm, enabled = False, color_mode = ''all'', last_status = []\<rparr>"
  define deltas where "deltas = [lit_0_1 exact_fm, - lit_0_1 exact_fm, lit_0_1 exact_fm]"
  have h: "lit_0_1 exact_fm \<le> current_gamma self" "current_gamma self \<le> lit_4_4 exact_fm"
    "set deltas \<subseteq> {lit_0_1 exact_fm, - lit_0_1 exact_fm}" "current_gamma self = lit_4_4 exact_fm"
    by (simp_all add: self_def deltas_def lit_0_1_def lit_4_4_def exact_fm_def)
  from change_gamma_stays_in_range [OF exact_fm_monotone exact_fm_idempotent
      exact_fm_exact_ints exact_fm_accurate h(1-3), of os] h
  show ?thesis
    using exact_fm_monotone exact_fm_idempotent exact_fm_exact_ints exact_fm_accurate
    unfolding Let_def os_def [symmetric] self_def [symmetric] deltas_def [symmetric]
    by blast
qed

section \<open>The calls of a run\<close>

lemma writes_append [simp]: "writes (xs @ ys) = writes xs @ writes ys"
  by (induction xs rule: writes.induct) simp_all

lemma ramps_set_append [simp]: "ramps_set (xs @ ys) = ramps_set xs @ ramps_set ys"
  by (induction xs rule: ramps_set.induct) simp_all

lemma redraws_append [simp]: "redraws (xs @ ys) = redraws xs + redraws ys"
  by (induction xs rule: redraws.induct) simp_all

section \<open>The enumeration of the displays\<close>

lemma enum_loop_closed_form:
  "enum_loop os ramp i any_applied calls =
     (any_applied \<or> (\<exists>dd \<in> set (drop i (EnumDisplayDevicesW os)). acquired os dd),
      calls @ concat (map (device_calls os ramp) (drop i (EnumDisplayDevicesW os))))"
proof (induction os ramp i any_applied calls rule: enum_loop.induct)
  case (1 os ramp i any_applied calls)
  show ?case
  proof (cases "i < length (EnumDisplayDevicesW os)")
    case False
    then show ?thesis by (subst enum_loop.simps) simp
  next
    case True
    then have drop: "drop i (EnumDisplayDevicesW os) =
        EnumDisplayDevicesW os ! i # drop (i + 1) (EnumDisplayDevicesW os)"
      by (simp add: Cons_nth_drop_Suc)
    show ?thesis
      using True 1 [OF _ refl] 
      by (subst enum_loop.simps)
         (auto simp add: Let_def drop active_def
            acquired_def [of os "EnumDisplayDevicesW os ! i"]
            device_calls_def [of os ramp "EnumDisplayDevicesW os ! i"])
  qed
qed


lemma set_ramp_closed_form:
  "set_ramp_on_all_active_displays os ramp =
     concat (map (device_calls os ramp) (EnumDisplayDevicesW os)) @
     (if \<exists>dd \<in> set (EnumDisplayDevicesW os). acquired os dd then [] else fallback_calls os ramp)"
  by (simp add: set_ramp_on_all_active_displays_def enum_loop_closed_form fallback_calls_def
      Let_def)

lemma GetDC_not_in_device_calls [simp]: "Call_GetDC \<notin> set (device_calls os ramp dd)"
  by (simp add: device_calls_def)

lemma GetDC_in_fallback_calls: "Call_GetDC \<in> set (fallback_calls os ramp)"
  by (simp add: fallback_calls_def)

lemma fallback_iff:
  "Call_GetDC \<in> set (set_ramp_on_all_active_displays os ramp) \<longleftrightarrow>
     \<not> (\<exists>dd \<in> set (EnumDisplayDevicesW os). acquired os dd)"
  by (simp add: set_ramp_closed_form GetDC_in_fallback_calls)

text \<open>
  C1 as the code has it. The flag \<open>any_applied\<close> is set once \<^verbatim>\<open>SetDeviceGammaRamp\<close> has
  been called on the acquired context of an active display, whatever the call returned.
  The default display context is requested exactly when no active display was found or
  \<^verbatim>\<open>CreateDCW\<close> failed for every active display; the ramp is applied and the context
  released there when the request gives a handle. When an apply on an active display
  succeeded, the default context is not requested.
\<close>

theorem fallback_exactly_when_nothing_acquired:
  "(fst (enum_loop os ramp 0 False []) \<longleftrightarrow>
      (\<exists>dd \<in> set (EnumDisplayDevicesW os). acquired os dd)) \<and>
   (Call_GetDC \<in> set (set_ramp_on_all_active_displays os ramp) \<longleftrightarrow>
      (\<not> (\<exists>dd \<in> set (EnumDisplayDevicesW os). active dd) \<or>
       (\<forall>dd \<in> set (EnumDisplayDevicesW os).
          active dd \<longrightarrow> CreateDCW os (DeviceName dd) = 0))) \<and>
   set_ramp_on_all_active_displays os ramp =
     concat (map (device_calls os ramp) (EnumDisplayDevicesW os)) @
     (if Call_GetDC \<in> set (set_ramp_on_all_active_displays os ramp)
      then (if GetDC os \<noteq> 0
            then [Call_GetDC, Call_SetDeviceGammaRamp (GetDC os) ramp,
                  Call_ReleaseDC (GetDC os)]
            else [Call_GetDC])
      else []) \<and>
   ((\<exists>dd \<in> set (EnumDisplayDevicesW os).
       acquired os dd \<and> SetDeviceGammaRamp os (CreateDCW os (DeviceName dd)) ramp) \<longrightarrow>
    Call_GetDC \<notin> set (set_ramp_on_all_active_displays os ramp))"
proof -
  have flag: "fst (enum_loop os ramp 0 False []) \<longleftrightarrow>
      (\<exists>dd \<in> set (EnumDisplayDevicesW os). acquired os dd)"
    by (simp add: enum_loop_closed_form)
  have cond: "\<not> (\<exists>dd \<in> set (EnumDisplayDevicesW os). acquired os dd) \<longleftrightarrow>
      (\<not> (\<exists>dd \<in> set (EnumDisplayDevicesW os). active dd) \<or>
       (\<forall>dd \<in> set (EnumDisplayDevicesW os).
          active dd \<longrightarrow> CreateDCW os (DeviceName dd) = 0))"
    by (auto simp add: acquired_def)
  have calls: "set_ramp_on_all_active_displays os ramp =
     concat (map (device_calls os ramp) (EnumDisplayDevicesW os)) @
     (if Call_GetDC \<in> set (set_ramp_on_all_active_displays os ramp)
      then (if GetDC os \<noteq> 0
            then [Call_GetDC, Call_SetDeviceGammaRamp (GetDC os) ramp,
                  Call_ReleaseDC (GetDC os)]
            else [Call_GetDC])
      else [])"
    unfolding fallback_iff by (simp add: set_ramp_closed_form fallback_calls_def)
  show ?thesis
    using flag cond calls fallback_iff [of os ramp] by blast
qed


lemma two_displays_acquired:
  "\<exists>dd \<in> set (EnumDisplayDevicesW two_displays). acquired two_displays dd"
  by (simp add: two_displays_def acquired_def active_def DISPLAY_DEVICE_ACTIVE_def)

lemma two_displays_calls:
  "concat (map (device_calls two_displays RampArray) (EnumDisplayDevicesW two_displays)) =
     [Call_CreateDCW ''DISPLAY1'', Call_CreateDCW ''DISPLAY3'',
      Call_SetDeviceGammaRamp 44 RampArray, Call_DeleteDC 44]"
  by (simp add: two_displays_def device_calls_def active_def DISPLAY_DEVICE_ACTIVE_def)

theorem fallback_exactly_when_nothing_acquired_witness:
  "fst (enum_loop two_displays RampArray 0 False []) \<and>
   Call_GetDC \<notin> set (set_ramp_on_all_active_displays two_displays RampArray) \<and>
   set_ramp_on_all_active_displays two_displays RampArray =
     [Call_CreateDCW ''DISPLAY1'', Call_CreateDCW ''DISPLAY3'',
      Call_SetDeviceGammaRamp 44 RampArray, Call_DeleteDC 44]"
proof -
  note inst = fallback_exactly_when_nothing_acquired [of two_displays RampArray]
  from inst two_displays_acquired
  have flag: "fst (enum_loop two_displays RampArray 0 False [])" by blast
  have "SetDeviceGammaRamp two_displays (CreateDCW two_displays ''DISPLAY3'') RampArray"
    by (simp add: two_displays_def)
  moreover have "acquired two_displays \<lparr>DeviceName = ''DISPLAY3'', StateFlags = 1\<rparr>"
    by (simp add: two_displays_def acquired_def active_def DISPLAY_DEVICE_ACTIVE_def)
  moreover have "\<lparr>DeviceName = ''DISPLAY3'', StateFlags = 1\<rparr>
      \<in> set (EnumDisplayDevicesW two_displays)"
    by (simp add: two_displays_def)
  ultimately have "\<exists>dd \<in> set (EnumDisplayDevicesW two_displays).
       acquired two_displays dd \<and>
       SetDeviceGammaRamp two_displays (CreateDCW two_displays (DeviceName dd)) RampArray"
    by (intro bexI [of _ "\<lparr>DeviceName = ''DISPLAY3'', StateFlags = 1\<rparr>"]) simp_all
  with inst have no: "Call_GetDC \<notin> set (set_ramp_on_all_active_displays two_displays RampArray)"
    by blast
  from inst have "set_ramp_on_all_active_displays two_displays RampArray =
     concat (map (device_calls two_displays RampArray) (EnumDisplayDevicesW two_displays)) @
     (if Call_GetDC \<in> set (set_ramp_on_all_active_displays two_displays RampArray)
      then (if GetDC two_displays \<noteq> 0
            then [Call_GetDC, Call_SetDeviceGammaRamp (GetDC two_displays) RampArray,
                  Call_ReleaseDC (GetDC two_displays)]
            else [Call_GetDC])
      else [])" by blast
  with no have "set_ramp_on_all_active_displays two_displays RampArray =
     concat (map (device_calls two_displays RampArray) (EnumDisplayDevicesW two_displays))"
    by simp
  with flag no show ?thesis by (simp only: two_displays_calls) simp
qed


lemma no_display_calls: "set_ramp_on_all_active_displays no_display ramp = [Call_GetDC]"
  by (simp add: set_ramp_closed_form fallback_calls_def no_display_def)

lemma apply_fails_acquired:
  "\<exists>dd \<in> set (EnumDisplayDevicesW apply_fails). acquired apply_fails dd"
  by (simp add: apply_fails_def acquired_def active_def DISPLAY_DEVICE_ACTIVE_def)

lemma apply_fails_calls:
  "set_ramp_on_all_active_displays apply_fails ramp =
     [Call_CreateDCW ''DISPLAY1'', Call_SetDeviceGammaRamp 44 ramp, Call_DeleteDC 44]"
  using apply_fails_acquired
  by (simp add: set_ramp_closed_form)
     (simp add: apply_fails_def device_calls_def active_def DISPLAY_DEVICE_ACTIVE_def)

text \<open>
  C1 as stated fails at two places. With no display device and no default context the
  condition of the fallback holds, the default context is requested, and the ramp is
  applied nowhere. With one active display whose context is acquired and whose
  \<^verbatim>\<open>SetDeviceGammaRamp\<close> fails, the flag is set although no apply succeeded.
\<close>

theorem fallback_claim_counterexample:
  "EnumDisplayDevicesW no_display = [] \<and>
   set_ramp_on_all_active_displays no_display RampArray = [Call_GetDC] \<and>
   ramps_set (set_ramp_on_all_active_displays no_display RampArray) = [] \<and>
   fst (enum_loop apply_fails RampArray 0 False []) \<and>
   set_ramp_on_all_active_displays apply_fails RampArray =
     [Call_CreateDCW ''DISPLAY1'', Call_SetDeviceGammaRamp 44 RampArray, Call_DeleteDC 44] \<and>
   \<not> SetDeviceGammaRamp apply_fails 44 RampArray"
proof -
  have "EnumDisplayDevicesW no_display = []" by (simp add: no_display_def)
  moreover have "fst (enum_loop apply_fails RampArray 0 False [])"
    using apply_fails_acquired by (simp add: enum_loop_closed_form)
  moreover have "\<not> SetDeviceGammaRamp apply_fails 44 RampArray"
    by (simp add: apply_fails_def)
  ultimately show ?thesis by (simp add: no_display_calls apply_fails_calls)
qed

section \<open>Reset\<close>

lemma build_neutral_returns:
  "rnd_exact_ints fm \<Longrightarrow> \<exists>ramp. build_gamma_ramp fm mode 1 = Inr ramp"
  using rnd_one [of fm] by (intro build_gamma_ramp_returns_if) simp_all

lemma ramps_set_device_calls:
  "ramps_set (device_calls os ramp dd) = (if acquired os dd then [ramp] else [])"
  by (simp add: device_calls_def acquired_def)

lemma ramps_set_concat_device_calls:
  "ramps_set (concat (map (device_calls os ramp) dds)) =
     replicate (length (filter (acquired os) dds)) ramp"
  by (induction dds) (simp_all add: ramps_set_device_calls)

lemma ramps_set_fallback_calls:
  "ramps_set (fallback_calls os ramp) = (if GetDC os \<noteq> 0 then [ramp] else [])"
  by (simp add: fallback_calls_def)

lemma ramps_set_set_ramp:
  "ramps_set (set_ramp_on_all_active_displays os ramp) =
     replicate
       (if \<exists>dd \<in> set (EnumDisplayDevicesW os). acquired os dd
        then length (filter (acquired os) (EnumDisplayDevicesW os))
        else if GetDC os \<noteq> 0 then 1 else 0) ramp"
  by (simp add: set_ramp_closed_form ramps_set_concat_device_calls ramps_set_fallback_calls)

lemma failing_displays_calls:
  "set_ramp_on_all_active_displays failing_displays ramp =
     [Call_CreateDCW ''DISPLAY1'', Call_GetDC, Call_SetDeviceGammaRamp 7 ramp,
      Call_ReleaseDC 7]"
proof -
  have "\<not> (\<exists>dd \<in> set (EnumDisplayDevicesW failing_displays). acquired failing_displays dd)"
    by (simp add: failing_displays_def acquired_def)
  then show ?thesis
    by (simp add: set_ramp_closed_form)
       (simp add: failing_displays_def device_calls_def active_def DISPLAY_DEVICE_ACTIVE_def
          fallback_calls_def)
qed

section \<open>The status text\<close>

lemma get_status_text_last_status [simp]:
  "get_status_text fm (self\<lparr>last_status := t\<rparr>) = get_status_text fm self"
  by (simp add: get_status_text_def)

lemma get_status_text_not_empty: "get_status_text fm self \<noteq> []"
  by (simp add: get_status_text_def text_head_def Let_def)

lemma calls_of_update_display:
  "calls_of (update_display fm self) =
     (if get_status_text fm self \<noteq> last_status self
      then [Clear_screen, Print (get_status_text fm self)] else [])"
  by (simp add: update_display_def Let_def)

lemma state_of_update_display:
  "state_of (update_display fm self) = self\<lparr>last_status := get_status_text fm self\<rparr>"
  by (simp add: update_display_def Let_def)

text \<open>
  C9. \<^verbatim>\<open>update_display\<close> clears the screen and prints exactly when the text of the state
  differs from \<open>last_status\<close>, and otherwise makes no call. Right after it, a second
  \<^verbatim>\<open>update_display\<close> of the same state makes no call; so the two together redraw once
  when the text was not the one shown before, as on a controller that has shown nothing,
  and not at all otherwise.
\<close>

theorem update_display_redraws_on_change:
  "calls_of (update_display fm self) =
     (if get_status_text fm self \<noteq> last_status self
      then [Clear_screen, Print (get_status_text fm self)] else []) \<and>
   redraws (calls_of (update_display fm self)) =
     (if get_status_text fm self \<noteq> last_status self then 1 else 0) \<and>
   calls_of (update_display fm (state_of (update_display fm self))) = [] \<and>
   redraws (calls_of (then_do (update_display fm self) (update_display fm))) =
     (if get_status_text fm self \<noteq> last_status self then 1 else 0) \<and>
   redraws (calls_of (then_do (update_display fm (self\<lparr>last_status := []\<rparr>))
     (update_display fm))) = 1"
  by (simp add: calls_of_update_display state_of_update_display calls_of_then_do
      get_status_text_not_empty)

theorem update_display_redraws_on_change_witness:
  "redraws (calls_of (update_display exact_fm default_controller)) = 1 \<and>
   calls_of (update_display exact_fm (state_of (update_display exact_fm default_controller))) = [] \<and>
   redraws (calls_of (then_do (update_display exact_fm default_controller)
     (update_display exact_fm))) = 1"
proof -
  have "get_status_text exact_fm default_controller \<noteq> last_status default_controller"
    using get_status_text_not_empty [of exact_fm default_controller]
    by (simp add: default_controller_def)
  then show ?thesis
    using update_display_redraws_on_change [of exact_fm default_controller] by simp
qed

section \<open>The colour mode\<close>

lemma build_loop_other_mode:
  "mode \<noteq> ''blue'' \<Longrightarrow>
   build_loop fm mode inv_g js ramp = build_loop fm ''all'' inv_g js ramp"
  by (induction js arbitrary: ramp) (simp_all split: sum.splits)

lemma build_gamma_ramp_other_mode:
  "mode \<noteq> ''blue'' \<Longrightarrow> build_gamma_ramp fm mode g = build_gamma_ramp fm ''all'' g"
  by (simp add: build_gamma_ramp_def build_loop_other_mode [of mode] split: sum.splits)

lemma load_config_color_mode:
  "load_config (Json (JObj [(''color_mode'', JStr m)])) =
     Inr [(''gamma'', JNum 2), (''color_mode'', JStr m),
          (''hotkeys'', JObj [(''toggle'', JStr ''F2''), (''increase'', JStr ''F3''),
                             (''decrease'', JStr ''F4''), (''cycle_color'', JStr ''F5'')])]"
  by (simp add: load_config_def DEFAULT_CONFIG_def)

text \<open>
  C10. In a state whose \<open>color_mode\<close> is neither \<^verbatim>\<open>"all"\<close> nor \<^verbatim>\<open>"blue"\<close>,
  \<^verbatim>\<open>cycle_color_mode\<close> raises ValueError and changes nothing, while the ramp builder
  builds for that mode what it builds for \<^verbatim>\<open>"all"\<close>. A configuration file that gives
  \<^verbatim>\<open>color_mode\<close> that string starts the controller in such a state.
\<close>

theorem cycle_color_mode_raises_on_other_mode:
  assumes "color_mode self \<noteq> ''all''" and "color_mode self \<noteq> ''blue''"
  shows "cycle_color_mode fm os self = Raise ValueError self [] \<and>
         build_gamma_ramp fm (color_mode self) g = build_gamma_ramp fm ''all'' g \<and>
         (\<exists>started.
            GammaController (Json (JObj [(''color_mode'', JStr (color_mode self))])) =
              Started started \<and>
            color_mode started = color_mode self \<and> current_gamma started = 2 \<and>
            \<not> enabled started)"
proof -
  have "cycle_color_mode fm os self = Raise ValueError self []"
    using assms by (simp add: cycle_color_mode_def Let_def)
  moreover have "build_gamma_ramp fm (color_mode self) g = build_gamma_ramp fm ''all'' g"
    using assms(2) by (rule build_gamma_ramp_other_mode)
  moreover have "\<exists>started.
            GammaController (Json (JObj [(''color_mode'', JStr (color_mode self))])) =
              Started started \<and>
            color_mode started = color_mode self \<and> current_gamma started = 2 \<and>
            \<not> enabled started"
    by (simp add: GammaController_def load_config_color_mode)
  ultimately show ?thesis by blast
qed

theorem cycle_color_mode_raises_on_other_mode_witness:
  "color_mode (default_controller\<lparr>color_mode := ''red''\<rparr>) \<noteq> ''all'' \<and>
   color_mode (default_controller\<lparr>color_mode := ''red''\<rparr>) \<noteq> ''blue'' \<and>
   cycle_color_mode exact_fm two_displays (default_controller\<lparr>color_mode := ''red''\<rparr>) =
     Raise ValueError (default_controller\<lparr>color_mode := ''red''\<rparr>) [] \<and>
   build_gamma_ramp exact_fm ''red'' 2 = build_gamma_ramp exact_fm ''all'' 2 \<and>
   GammaController (Json (JObj [(''color_mode'', JStr ''red'')])) =
     Started (default_controller\<lparr>color_mode := ''red'',
       config := [(''gamma'', JNum 2), (''color_mode'', JStr ''red''),
          (''hotkeys'', JObj [(''toggle'', JStr ''F2''), (''increase'', JStr ''F3''),
                             (''decrease'', JStr ''F4''), (''cycle_color'', JStr ''F5'')])]\<rparr>)"
proof -
  have m: "color_mode (default_controller\<lparr>color_mode := ''red''\<rparr>) = ''red''" by simp
  have "GammaController (Json (JObj [(''color_mode'', JStr ''red'')])) =
     Started (default_controller\<lparr>color_mode := ''red'',
       config := [(''gamma'', JNum 2), (''color_mode'', JStr ''red''),
          (''hotkeys'', JObj [(''toggle'', JStr ''F2''), (''increase'', JStr ''F3''),
                             (''decrease'', JStr ''F4''), (''cycle_color'', JStr ''F5'')])]\<rparr>)"
    by (simp add: GammaController_def load_config_color_mode default_controller_def)
  then show ?thesis
    using cycle_color_mode_raises_on_other_mode
      [of "default_controller\<lparr>color_mode := ''red''\<rparr>" exact_fm two_displays 2]
    unfolding m by simp
qed

section \<open>The writes of the configuration\<close>

lemma writes_device_calls [simp]: "writes (device_calls os ramp dd) = []"
  by (simp add: device_calls_def)

lemma writes_concat_device_calls [simp]:
  "writes (concat (map (device_calls os ramp) dds)) = []"
  by (induction dds) simp_all

lemma writes_set_ramp [simp]: "writes (set_ramp_on_all_active_displays os ramp) = []"
  by (simp add: set_ramp_closed_form fallback_calls_def)

lemma writes_apply_gamma [simp]: "writes (calls_of (apply_gamma fm os self)) = []"
  by (simp add: apply_gamma_def split: sum.splits)

lemma writes_update_display [simp]: "writes (calls_of (update_display fm self)) = []"
  by (simp add: calls_of_update_display)

lemma calls_of_save_config:
  "calls_of (save_config self) =
     [Write_config (AList.update ''color_mode'' (JStr (color_mode self))
        (AList.update ''gamma'' (JNum (current_gamma self)) (config self)))]"
  by (simp add: save_config_def Let_def)

lemma writes_toggle: "writes (calls_of (toggle fm os self)) = []"
  by (simp add: toggle_def calls_of_then_do)

lemma writes_change_gamma:
  "writes (calls_of (change_gamma fm os delta self)) =
     (if returns (change_gamma fm os delta self)
      then [AList.update ''color_mode'' (JStr (color_mode self))
             (AList.update ''gamma''
               (JNum (max (lit_0_1 fm) (min (lit_4_4 fm) (fadd fm (current_gamma self) delta))))
               (config self))]
      else [])"
  by (simp add: change_gamma_def Let_def calls_of_then_do returns_then_do calls_of_save_config)

lemma writes_cycle_color_mode:
  "writes (calls_of (cycle_color_mode fm os self)) =
     (if returns (cycle_color_mode fm os self)
      then [AList.update ''color_mode''
              (JStr (if color_mode self = ''all'' then ''blue'' else ''all''))
             (AList.update ''gamma'' (JNum (current_gamma self)) (config self))]
      else [])"
  by (simp add: cycle_color_mode_def Let_def calls_of_then_do returns_then_do
      calls_of_save_config)

lemma returns_cycle_color_mode:
  "returns (cycle_color_mode fm os self) \<longleftrightarrow>
     (color_mode self = ''all'' \<or> color_mode self = ''blue'') \<and>
     (enabled self \<longrightarrow>
        (\<exists>ramp. build_gamma_ramp fm (if color_mode self = ''all'' then ''blue'' else ''all'')
           (current_gamma self) = Inr ramp))"
  by (simp add: cycle_color_mode_def Let_def returns_then_do returns_apply_gamma)


text \<open>
  C6. Every \<^verbatim>\<open>change_gamma\<close> returns and writes the configuration once, with the new
  gamma and the colour mode, whether \<open>enabled\<close> is set or not. \<^verbatim>\<open>cycle_color_mode\<close>
  writes it once, with the gamma and the new colour mode, whenever it returns, and it
  returns from every state whose colour mode is \<^verbatim>\<open>"all"\<close> or \<^verbatim>\<open>"blue"\<close> and whose gamma,
  if \<open>enabled\<close> is set, is above 0; when it raises it writes nothing. \<^verbatim>\<open>toggle\<close> never
  writes the configuration.
\<close>

theorem config_written_by_gamma_and_mode_changes_only:
  assumes "rnd_monotone fm" and "rnd_exact_ints fm" and "rnd_accurate fm"
  shows "returns (change_gamma fm os delta self) \<and>
         writes (calls_of (change_gamma fm os delta self)) =
           [AList.update ''color_mode'' (JStr (color_mode self))
             (AList.update ''gamma''
               (JNum (max (lit_0_1 fm) (min (lit_4_4 fm) (fadd fm (current_gamma self) delta))))
               (config self))] \<and>
         writes (calls_of (cycle_color_mode fm os self)) =
           (if returns (cycle_color_mode fm os self)
            then [AList.update ''color_mode''
                    (JStr (if color_mode self = ''all'' then ''blue'' else ''all''))
                   (AList.update ''gamma'' (JNum (current_gamma self)) (config self))]
            else []) \<and>
         ((color_mode self = ''all'' \<or> color_mode self = ''blue'') \<and>
          (enabled self \<longrightarrow> 0 < current_gamma self) \<longrightarrow>
          returns (cycle_color_mode fm os self)) \<and>
         writes (calls_of (toggle fm os self)) = []"
proof -
  have 1: "returns (change_gamma fm os delta self)"
    using assms by (rule returns_change_gamma)
  have 2: "returns (cycle_color_mode fm os self)"
    if "color_mode self = ''all'' \<or> color_mode self = ''blue''"
      and "enabled self \<longrightarrow> 0 < current_gamma self"
    using that build_gamma_ramp_returns [OF assms(1,2), of "current_gamma self"]
    by (simp add: returns_cycle_color_mode)
  show ?thesis
    using 1 2 writes_change_gamma [of fm os delta self] writes_cycle_color_mode [of fm os self]
      writes_toggle [of fm os self]
    by simp
qed

theorem config_written_by_gamma_and_mode_changes_only_witness:
  "rnd_monotone exact_fm \<and> rnd_exact_ints exact_fm \<and> rnd_accurate exact_fm \<and>
   returns (change_gamma exact_fm two_displays (1 / 10) default_controller) \<and>
   writes (calls_of (change_gamma exact_fm two_displays (1 / 10) default_controller)) =
     [[(''gamma'', JNum (21 / 10)), (''color_mode'', JStr ''all''),
       (''hotkeys'', JObj [(''toggle'', JStr ''F2''), (''increase'', JStr ''F3''),
                          (''decrease'', JStr ''F4''), (''cycle_color'', JStr ''F5'')])]] \<and>
   returns (cycle_color_mode exact_fm two_displays default_controller) \<and>
   writes (calls_of (cycle_color_mode exact_fm two_displays default_controller)) =
     [[(''gamma'', JNum 2), (''color_mode'', JStr ''blue''),
       (''hotkeys'', JObj [(''toggle'', JStr ''F2''), (''increase'', JStr ''F3''),
                          (''decrease'', JStr ''F4''), (''cycle_color'', JStr ''F5'')])]] \<and>
   writes (calls_of (toggle exact_fm two_displays default_controller)) = []"
proof -
  have c: "color_mode default_controller = ''all''" "\<not> enabled default_controller"
    "current_gamma default_controller = 2" "config default_controller = DEFAULT_CONFIG"
    by (simp_all add: default_controller_def)
  have g: "max (lit_0_1 exact_fm) (min (lit_4_4 exact_fm) (fadd exact_fm 2 (1 / 10))) = 21 / 10"
    by (simp add: lit_0_1_def lit_4_4_def fadd_def exact_fm_def)
  from config_written_by_gamma_and_mode_changes_only
    [OF exact_fm_monotone exact_fm_exact_ints exact_fm_accurate,
      of two_displays "1 / 10" default_controller]
  show ?thesis
    using exact_fm_monotone exact_fm_exact_ints exact_fm_accurate
    unfolding c g by (simp add: DEFAULT_CONFIG_def)
qed

section \<open>The neutral ramp\<close>

lemma nth_identity_ramp:
  "c < 3 \<Longrightarrow> i < 256 \<Longrightarrow> identity_ramp ! c ! i = of_nat (i * 257)"
  by (simp del: of_nat_mult add: identity_ramp_def)

lemma well_shaped_identity_ramp: "well_shaped identity_ramp"
  by (simp add: well_shaped_def identity_ramp_def)

lemma ramp_eqI:
  assumes "well_shaped r" and "well_shaped r'"
    and "\<And>c i. c < 3 \<Longrightarrow> i < 256 \<Longrightarrow> r ! c ! i = r' ! c ! i"
  shows "r = r'"
proof (rule nth_equalityI)
  show "length r = length r'" using assms(1,2) by (simp add: well_shaped_def)
  fix c assume "c < length r"
  then have c: "c < 3" using assms(1) by (simp add: well_shaped_def)
  then have len: "length (r ! c) = 256" "length (r' ! c) = 256"
    using assms(1,2) by (auto simp add: well_shaped_def lt3)
  show "r ! c = r' ! c"
    using len assms(3) [OF c] by (intro nth_equalityI) simp_all
qed

lemma neutral_entry:
  assumes "rnd_accurate fm" and "rnd_exact_ints fm" and "pow_unit fm" and "i < 256"
  shows "entry_of fm mode 1 c i = of_nat (i * 257)"
proof -
  have "(of_int (int i * 257) :: 16 word) = of_nat (i * 257)"
    by simp
  then show ?thesis
    using neutral_curve [OF assms]
    by (simp add: entry_of_def)
qed

lemma build_neutral_ramp:
  assumes "rnd_accurate fm" and "rnd_exact_ints fm" and "pow_unit fm"
  shows "build_gamma_ramp fm mode 1 = Inr identity_ramp"
proof -
  have one: "rnd fm (1 / 1) = 1" using rnd_one [OF assms(2)] by simp
  from build_neutral_returns [OF assms(2)]
  obtain ramp where ramp: "build_gamma_ramp fm mode 1 = Inr ramp" by blast
  have "ramp = identity_ramp"
  proof (rule ramp_eqI)
    show "well_shaped ramp" using build_gamma_ramp_entries(3) [OF ramp, of 0 0] by simp
    show "well_shaped identity_ramp" by (rule well_shaped_identity_ramp)
    fix c i :: nat
    assume ci: "c < 3" "i < 256"
    show "ramp ! c ! i = identity_ramp ! c ! i"
      using build_gamma_ramp_entries(1) [OF ramp ci] one
        neutral_entry [OF assms ci(2), of mode c] nth_identity_ramp [OF ci]
      by (simp only:)
  qed
  with ramp show ?thesis by simp
qed


text \<open>
  C8. From every state, whatever its \<open>enabled\<close>, gamma and colour mode,
  \<^verbatim>\<open>reset_gamma\<close> returns with \<open>enabled\<close> false and nothing else of the state changed.
  The ramp it builds with gamma 1.0 is the linear ramp, \<open>i * 257\<close> at every index of all
  three rows, in every colour mode, and its calls are those of applying that ramp: every
  ramp handed to \<^verbatim>\<open>SetDeviceGammaRamp\<close> is the linear ramp, once for each acquired active
  display, or once on the default context when none was acquired and the default context
  is available.
\<close>

theorem reset_applies_neutral_ramp:
  assumes "rnd_accurate fm" and "rnd_exact_ints fm" and "pow_unit fm"
  shows "build_gamma_ramp fm (color_mode self) 1 = Inr identity_ramp \<and>
         (c < 3 \<and> i < 256 \<longrightarrow> unat (identity_ramp ! c ! i) = i * 257) \<and>
         reset_gamma fm os self =
           Ok (self\<lparr>enabled := False\<rparr>) (set_ramp_on_all_active_displays os identity_ramp) \<and>
         enabled (state_of (reset_gamma fm os self)) = False \<and>
         ramps_set (calls_of (reset_gamma fm os self)) =
           replicate
             (if \<exists>dd \<in> set (EnumDisplayDevicesW os). acquired os dd
              then length (filter (acquired os) (EnumDisplayDevicesW os))
              else if GetDC os \<noteq> 0 then 1 else 0) identity_ramp"
proof -
  have n: "build_gamma_ramp fm (color_mode self) 1 = Inr identity_ramp"
    using assms by (rule build_neutral_ramp)
  then have r: "reset_gamma fm os self =
      Ok (self\<lparr>enabled := False\<rparr>) (set_ramp_on_all_active_displays os identity_ramp)"
    by (simp add: reset_gamma_def apply_gamma_def)
  have "unat (identity_ramp ! c ! i) = i * 257" if "c < 3" "i < 256"
    using that by (simp only: nth_identity_ramp unat_identity_entry)
  with n r show ?thesis by (simp add: ramps_set_set_ramp)
qed

theorem reset_applies_neutral_ramp_witness:
  "rnd_accurate exact_fm \<and> rnd_exact_ints exact_fm \<and> pow_unit exact_fm \<and>
   build_gamma_ramp exact_fm ''blue'' 1 = Inr identity_ramp \<and>
   unat (identity_ramp ! 2 ! 255) = 65535 \<and>
   reset_gamma exact_fm failing_displays
       (default_controller\<lparr>enabled := True, color_mode := ''blue''\<rparr>) =
     Ok (default_controller\<lparr>color_mode := ''blue''\<rparr>)
       [Call_CreateDCW ''DISPLAY1'', Call_GetDC, Call_SetDeviceGammaRamp 7 identity_ramp,
        Call_ReleaseDC 7] \<and>
   ramps_set (calls_of (reset_gamma exact_fm failing_displays
     (default_controller\<lparr>enabled := True, color_mode := ''blue''\<rparr>))) = [identity_ramp]"
proof -
  have c: "color_mode (default_controller\<lparr>enabled := True, color_mode := ''blue''\<rparr>) = ''blue''"
    "default_controller\<lparr>enabled := True, color_mode := ''blue'', enabled := False\<rparr> =
       default_controller\<lparr>color_mode := ''blue''\<rparr>"
    by (simp_all add: default_controller_def)
  from reset_applies_neutral_ramp [OF exact_fm_accurate exact_fm_exact_ints exact_fm_pow_unit,
      of "default_controller\<lparr>enabled := True, color_mode := ''blue''\<rparr>" 2 255
        failing_displays]
  have "build_gamma_ramp exact_fm ''blue'' 1 = Inr identity_ramp"
    and "unat (identity_ramp ! 2 ! 255) = 255 * 257"
    and "reset_gamma exact_fm failing_displays
       (default_controller\<lparr>enabled := True, color_mode := ''blue''\<rparr>) =
     Ok (default_controller\<lparr>color_mode := ''blue''\<rparr>)
       (set_ramp_on_all_active_displays failing_displays identity_ramp)"
    unfolding c by simp_all
  then show ?thesis
    using exact_fm_accurate exact_fm_exact_ints exact_fm_pow_unit
    by (simp add: failing_displays_calls)
qed

section \<open>The polling loop\<close>

lemma then_do_Ok_nil [simp]: "then_do (Ok s []) f = f s"
  by (cases "f s") (simp_all add: then_do_def)

lemma then_do_return [simp]: "then_do r (\<lambda>s. Ok s []) = r"
  by (cases r) (simp_all add: then_do_def)

lemma then_do_assoc: "then_do (then_do r f) g = then_do r (\<lambda>s. then_do (f s) g)"
  by (cases r; cases "f (state_of r)"; cases "g (state_of (f (state_of r)))")
     (simp_all add: then_do_def)

lemma run_all_append: "run_all (fs @ gs) s = then_do (run_all fs s) (run_all gs)"
proof (induction fs arbitrary: s)
  case Nil
  then show ?case by simp
next
  case (Cons f fs)
  have "run_all (fs @ gs) = (\<lambda>s. then_do (run_all fs s) (run_all gs))"
    by (rule ext) (rule Cons.IH)
  then show ?case by (simp add: then_do_assoc)
qed

lemma returns_on_controller [simp]: "returns (on_controller r) = returns r"
  by (cases r) simp_all

lemma state_of_on_controller [simp]: "state_of (on_controller r) = fst (state_of r)"
  by (cases r) simp_all

lemma calls_of_on_controller [simp]: "calls_of (on_controller r) = calls_of r"
  by (cases r) simp_all

lemma on_controller_then_do:
  assumes "returns r \<Longrightarrow> on_controller (f (state_of r)) = g (fst (state_of r))"
  shows "on_controller (then_do r f) = then_do (on_controller r) g"
proof (cases r)
  case (Ok st calls)
  then have "on_controller (f st) = g (fst st)" using assms by simp
  then show ?thesis using Ok
    by (cases "f st"; cases "g (fst st)") (simp_all add: then_do_def)
next
  case (Raise e st calls)
  then show ?thesis by (simp add: then_do_def)
qed

lemma running_save_config [simp]: "running (state_of (save_config self)) = running self"
  by (simp add: save_config_def Let_def)

lemma running_update_display [simp]:
  "running (state_of (update_display fm self)) = running self"
  by (simp add: state_of_update_display)

lemma dispatch_running: "running (state_of (dispatch fm os k self)) = running self"
  by (simp add: dispatch_def toggle_def change_gamma_def cycle_color_mode_def Let_def
      state_of_then_do returns_then_do split: sum.splits)

lemma run_all_dispatch_running:
  "running (state_of (run_all (map (dispatch fm os) ks) c)) = running c"
  by (rule run_all_invariant [where P = "\<lambda>s. running s = running c"])
     (auto simp add: dispatch_running)

lemma poll_key_facts:
  assumes "ks k = Some p"
  shows "on_controller (poll_key fm os answers k (c, ks)) =
           (if pressed (answers k) \<and> \<not> was_pressed ks k then dispatch fm os k c else Ok c [])"
    and "returns (poll_key fm os answers k (c, ks)) \<Longrightarrow>
           snd (state_of (poll_key fm os answers k (c, ks))) = ks(k \<mapsto> answers k AND 0x8000)"
proof -
  show "on_controller (poll_key fm os answers k (c, ks)) =
           (if pressed (answers k) \<and> \<not> was_pressed ks k then dispatch fm os k c else Ok c [])"
    using assms
    by (cases "dispatch fm os k c")
       (simp_all add: poll_key_def just_pressed_def Let_def pressed_def was_pressed_def)
  show "snd (state_of (poll_key fm os answers k (c, ks))) = ks(k \<mapsto> answers k AND 0x8000)"
    if "returns (poll_key fm os answers k (c, ks))"
    using assms that
    by (cases "dispatch fm os k c")
       (simp_all add: poll_key_def just_pressed_def Let_def split: if_splits)
qed


lemma poll_keys_facts:
  assumes "distinct (map fst keys)" and "fst ` set keys \<subseteq> dom ks"
  shows "on_controller (poll_keys fm os answers keys (c, ks)) =
           run_all (map (dispatch fm os)
             (filter (\<lambda>k. pressed (answers k) \<and> \<not> was_pressed ks k) (map fst keys))) c \<and>
         (returns (poll_keys fm os answers keys (c, ks)) \<longrightarrow>
            snd (state_of (poll_keys fm os answers keys (c, ks))) =
              (\<lambda>k. if k \<in> fst ` set keys then Some (answers k AND 0x8000) else ks k))"
  using assms
proof (induction keys arbitrary: c ks)
  case Nil
  then show ?case by simp
next
  case (Cons key keys)
  obtain k name where key: "key = (k, name)" by (cases key)
  from Cons.prems key obtain p where p: "ks k = Some p" by auto
  let ?r = "poll_key fm os answers k (c, ks)"
  let ?fire = "pressed (answers k) \<and> \<not> was_pressed ks k"
  let ?rest = "filter (\<lambda>k. pressed (answers k) \<and> \<not> was_pressed ks k) (map fst keys)"
  let ?ks1 = "ks(k \<mapsto> answers k AND 0x8000)"
  note first = poll_key_facts [of ks k p fm os answers c, OF p]
  have d: "distinct (map fst keys)" and sub: "fst ` set keys \<subseteq> dom ?ks1"
    and notin: "k \<notin> fst ` set keys"
    using Cons.prems by (auto simp add: key)
  have same: "was_pressed ?ks1 k' = was_pressed ks k'" if "k' \<in> fst ` set keys" for k'
    using that notin by (auto simp add: was_pressed_def)
  have rest: "filter (\<lambda>k. pressed (answers k) \<and> \<not> was_pressed ?ks1 k) (map fst keys) = ?rest"
    by (rule filter_cong) (auto simp add: same)
  have final: "(\<lambda>k'. if k' \<in> fst ` set keys then Some (answers k' AND 0x8000) else ?ks1 k') =
      (\<lambda>k'. if k' \<in> fst ` set (key # keys) then Some (answers k' AND 0x8000) else ks k')"
    by (auto simp add: key)
  have later: "on_controller (poll_keys fm os answers keys (state_of ?r)) =
        run_all (map (dispatch fm os) ?rest) (fst (state_of ?r)) \<and>
      (returns (poll_keys fm os answers keys (state_of ?r)) \<longrightarrow>
        snd (state_of (poll_keys fm os answers keys (state_of ?r))) =
          (\<lambda>k'. if k' \<in> fst ` set (key # keys) then Some (answers k' AND 0x8000) else ks k'))"
    if ret: "returns ?r"
  proof -
    define c1 where "c1 = fst (state_of ?r)"
    have s1: "state_of ?r = (c1, ?ks1)"
      using first(2) [OF ret] by (simp add: c1_def prod_eq_iff)
    note ih = Cons.IH [OF d sub, of c1]
    have 1: "on_controller (poll_keys fm os answers keys (c1, ?ks1)) =
        run_all (map (dispatch fm os) ?rest) c1"
      using conjunct1 [OF ih] unfolding rest .
    have 2: "snd (state_of (poll_keys fm os answers keys (c1, ?ks1))) =
          (\<lambda>k'. if k' \<in> fst ` set (key # keys) then Some (answers k' AND 0x8000) else ks k')"
      if "returns (poll_keys fm os answers keys (c1, ?ks1))"
      using mp [OF conjunct2 [OF ih] that] by (rule trans) (rule final)
    from 1 2 have "on_controller (poll_keys fm os answers keys (c1, ?ks1)) =
        run_all (map (dispatch fm os) ?rest) c1 \<and>
      (returns (poll_keys fm os answers keys (c1, ?ks1)) \<longrightarrow>
        snd (state_of (poll_keys fm os answers keys (c1, ?ks1))) =
          (\<lambda>k'. if k' \<in> fst ` set (key # keys) then Some (answers k' AND 0x8000) else ks k'))"
      by blast
    then show ?thesis unfolding s1 fst_conv .
  qed
  have "on_controller (then_do ?r (poll_keys fm os answers keys)) =
      then_do (on_controller ?r) (run_all (map (dispatch fm os) ?rest))"
    using later by (intro on_controller_then_do) simp
  also have "\<dots> = run_all (map (dispatch fm os) ((if ?fire then [k] else []) @ ?rest)) c"
    by (simp add: first(1))
  finally have 1: "on_controller (poll_keys fm os answers (key # keys) (c, ks)) =
      run_all (map (dispatch fm os)
        (filter (\<lambda>k. pressed (answers k) \<and> \<not> was_pressed ks k) (map fst (key # keys)))) c"
    by (simp add: key)
  have 2: "snd (state_of (poll_keys fm os answers (key # keys) (c, ks))) =
      (\<lambda>k'. if k' \<in> fst ` set (key # keys) then Some (answers k' AND 0x8000) else ks k')"
    if "returns (poll_keys fm os answers (key # keys) (c, ks))"
    using that later by (simp add: key returns_then_do state_of_then_do)
  from 1 2 show ?case by blast
qed


lemma hotkeys_distinct: "distinct (map fst hotkeys)"
  by (simp add: hotkeys_def)

lemma edges_cong:
  "(\<And>k. k \<in> fst ` set hotkeys \<Longrightarrow> p k = q k) \<Longrightarrow> edges p samples = edges q samples"
  by (cases samples) (auto intro: filter_cong)

text \<open>
  The loop does what running, one after the other, the commands of the keys of \<open>edges\<close>
  does: the same calls, the same controller, the same exception.
\<close>

lemma main_loop_runs_edges:
  assumes "fst ` set hotkeys \<subseteq> dom ks" and "running c"
  shows "on_controller (main_loop fm os samples (c, ks)) =
           run_all (map (dispatch fm os) (edges (was_pressed ks) samples)) c"
  using assms
proof (induction samples arbitrary: c ks)
  case Nil
  then show ?case by simp
next
  case (Cons answers later)
  let ?r = "poll_keys fm os answers hotkeys (c, ks)"
  let ?now = "filter (\<lambda>k. pressed (answers k) \<and> \<not> was_pressed ks k) (map fst hotkeys)"
  let ?then = "edges (\<lambda>k. pressed (answers k)) later"
  note tick = poll_keys_facts [OF hotkeys_distinct Cons.prems(1), of fm os answers c]
  have now: "on_controller ?r = run_all (map (dispatch fm os) ?now) c"
    using tick by blast
  have loop: "main_loop fm os (answers # later) (c, ks) = then_do ?r (main_loop fm os later)"
    using Cons.prems(2) by simp
  have rest: "on_controller (main_loop fm os later (state_of ?r)) =
      run_all (map (dispatch fm os) ?then) (fst (state_of ?r))"
    if ret: "returns ?r"
  proof -
    define c1 where "c1 = fst (state_of ?r)"
    define ks1 where "ks1 = snd (state_of ?r)"
    have s1: "state_of ?r = (c1, ks1)" by (simp add: c1_def ks1_def)
    have ks1: "ks1 = (\<lambda>k. if k \<in> fst ` set hotkeys then Some (answers k AND 0x8000) else ks k)"
      using tick ret unfolding ks1_def by blast
    have "running (state_of (on_controller ?r)) = running c"
      unfolding now by (rule run_all_dispatch_running)
    then have run: "running c1" using Cons.prems(2) by (simp add: c1_def)
    have sub: "fst ` set hotkeys \<subseteq> dom ks1"
      by (force simp add: ks1)
    have e: "edges (was_pressed ks1) later = ?then"
      by (rule edges_cong) (simp add: ks1 was_pressed_def pressed_def)
    from Cons.IH [OF sub run] show ?thesis
      unfolding s1 fst_conv e .
  qed
  have "on_controller (then_do ?r (main_loop fm os later)) =
      then_do (on_controller ?r) (run_all (map (dispatch fm os) ?then))"
    using rest by (intro on_controller_then_do) simp
  also have "\<dots> = run_all (map (dispatch fm os) (?now @ ?then)) c"
    by (simp add: now run_all_append)
  finally show ?case unfolding loop by simp
qed

lemma count_edges:
  "k \<in> fst ` set hotkeys \<Longrightarrow>
   count_list (edges previous samples) k =
     transitions (previous k # map (\<lambda>answers. pressed (answers k)) samples)"
proof (induction samples arbitrary: previous)
  case Nil
  then show ?case by simp
next
  case (Cons answers later)
  have "count_list (filter (\<lambda>k. pressed (answers k) \<and> \<not> previous k) (map fst hotkeys)) k =
      (if pressed (answers k) \<and> \<not> previous k then 1 else 0)"
    using Cons.prems by (auto simp add: hotkeys_def)
  then show ?case using Cons by simp
qed

lemma set_edges:
  "set (edges previous samples) \<subseteq>
     {k \<in> fst ` set hotkeys. \<exists>answers \<in> set samples. pressed (answers k)}"
  by (induction samples arbitrary: previous) auto

lemma all_same_replicate:
  "(\<And>x. x \<in> set xs \<Longrightarrow> x = k) \<Longrightarrow> xs = replicate (count_list xs k) k"
  by (induction xs) auto

lemma edges_of_one_key:
  assumes "\<forall>answers \<in> set samples. \<forall>k \<in> fst ` set hotkeys. k \<noteq> key \<longrightarrow> \<not> pressed (answers k)"
  shows "edges previous samples = replicate (count_list (edges previous samples) key) key"
proof (rule all_same_replicate)
  fix k
  assume "k \<in> set (edges previous samples)"
  with set_edges [of previous samples] assms show "k = key" by blast
qed

lemma key_states0_dom: "fst ` set hotkeys \<subseteq> dom key_states0"
  by (simp add: hotkeys_def key_states0_def)

lemma key_states0_up: "was_pressed key_states0 = (\<lambda>k. False)"
  by (rule ext) (simp add: was_pressed_def key_states0_def)

lemma main_loop_from_start:
  "running c \<Longrightarrow>
   on_controller (main_loop fm os samples (c, key_states0)) =
     run_all (map (dispatch fm os) (edges (\<lambda>k. False) samples)) c"
  using main_loop_runs_edges [OF key_states0_dom, of c fm os samples]
  by (simp only: key_states0_up)

lemma then_do_run_all_nil [simp]: "then_do r (run_all []) = r"
proof -
  have "run_all [] = (\<lambda>s. Ok s [] :: 'a result)" by (rule ext) simp
  then show ?thesis by (simp only: then_do_return)
qed

lemma run_all_one: "run_all [f] s = f s"
  by simp

lemma dispatch_commands:
  "dispatch fm os 0x71 = toggle fm os"
  "dispatch fm os 0x72 = change_gamma fm os (lit_0_1 fm)"
  "dispatch fm os 0x73 = change_gamma fm os (- lit_0_1 fm)"
  "dispatch fm os 0x74 = cycle_color_mode fm os"
  by (rule ext, simp add: dispatch_def)+


lemma f3_pressed_once_samples:
  "map (\<lambda>answers. pressed (answers 0x72)) f3_pressed_once =
     [False, True, True, True, False, False]"
  by (simp add: f3_pressed_once_def key_up_def f3_down_def pressed_def)

lemma f3_pressed_once_others:
  "\<forall>answers \<in> set f3_pressed_once. \<forall>k \<in> fst ` set hotkeys. k \<noteq> 0x72 \<longrightarrow> \<not> pressed (answers k)"
  by (simp add: f3_pressed_once_def key_up_def f3_down_def pressed_def)

lemma f3_held_at_start_edges: "edges (\<lambda>k. False) f3_held_at_start = [0x72]"
  by (simp add: f3_held_at_start_def f3_down_def pressed_def hotkeys_def)

lemma change_gamma_default_controller:
  "current_gamma (state_of (change_gamma exact_fm os (lit_0_1 exact_fm) default_controller)) =
     21 / 10"
  "writes (calls_of (change_gamma exact_fm os (lit_0_1 exact_fm) default_controller)) =
     [[(''gamma'', JNum (21 / 10)), (''color_mode'', JStr ''all''),
       (''hotkeys'', JObj [(''toggle'', JStr ''F2''), (''increase'', JStr ''F3''),
                          (''decrease'', JStr ''F4''), (''cycle_color'', JStr ''F5'')])]]"
proof -
  have g: "max (lit_0_1 exact_fm)
      (min (lit_4_4 exact_fm) (fadd exact_fm (current_gamma default_controller) (lit_0_1 exact_fm)))
      = 21 / 10"
    by (simp add: lit_0_1_def lit_4_4_def fadd_def exact_fm_def default_controller_def)
  show "current_gamma (state_of (change_gamma exact_fm os (lit_0_1 exact_fm) default_controller)) =
     21 / 10"
    by (simp only: gamma_change_gamma g)
  have "returns (change_gamma exact_fm os (lit_0_1 exact_fm) default_controller)"
    using exact_fm_monotone exact_fm_exact_ints exact_fm_accurate by (rule returns_change_gamma)
  then show "writes (calls_of (change_gamma exact_fm os (lit_0_1 exact_fm) default_controller)) =
     [[(''gamma'', JNum (21 / 10)), (''color_mode'', JStr ''all''),
       (''hotkeys'', JObj [(''toggle'', JStr ''F2''), (''increase'', JStr ''F3''),
                          (''decrease'', JStr ''F4''), (''cycle_color'', JStr ''F5'')])]]"
    by (simp add: writes_change_gamma g) (simp add: default_controller_def DEFAULT_CONFIG_def)
qed

text \<open>
  C7 as the code has it. The loop starts with every key recorded as not pressed. What it
  does is what running these commands one after the other does, up to the first that
  raises: for each iteration in turn and each of the four keys in the loop's order, the
  key's command when the iteration samples the key pressed and the iteration before did
  not, or, in the first iteration, when it samples the key pressed. The commands are
  \<^verbatim>\<open>toggle\<close> for F2, \<^verbatim>\<open>change_gamma\<close> with 0.1 and -0.1 for F3 and F4, and
  \<^verbatim>\<open>cycle_color_mode\<close> for F5. So the command of a key is due once for each transition
  from not pressed to pressed in the key's samples preceded by a not pressed state, and
  never in an iteration that follows one with the key pressed; for the samples up, down,
  down, down, up, up it is due once, and when no other key is pressed the loop does what
  one call of the command does.
\<close>

theorem hotkey_command_runs_once_per_rising_edge:
  assumes "running controller" and "key \<in> fst ` set hotkeys"
  shows "on_controller (main_loop fm os samples (controller, key_states0)) =
           run_all (map (dispatch fm os) (edges (\<lambda>k. False) samples)) controller \<and>
         dispatch fm os 0x71 = toggle fm os \<and>
         dispatch fm os 0x72 = change_gamma fm os (lit_0_1 fm) \<and>
         dispatch fm os 0x73 = change_gamma fm os (- lit_0_1 fm) \<and>
         dispatch fm os 0x74 = cycle_color_mode fm os \<and>
         count_list (edges (\<lambda>k. False) samples) key =
           transitions (False # map (\<lambda>answers. pressed (answers key)) samples) \<and>
         (map (\<lambda>answers. pressed (answers key)) samples =
            [False, True, True, True, False, False] \<longrightarrow>
          count_list (edges (\<lambda>k. False) samples) key = 1) \<and>
         (map (\<lambda>answers. pressed (answers key)) samples =
            [False, True, True, True, False, False] \<and>
          (\<forall>answers \<in> set samples. \<forall>k \<in> fst ` set hotkeys.
             k \<noteq> key \<longrightarrow> \<not> pressed (answers k)) \<longrightarrow>
          on_controller (main_loop fm os samples (controller, key_states0)) =
            dispatch fm os key controller)"
proof -
  note loop = main_loop_from_start [OF assms(1), of fm os samples]
  note count = count_edges [OF assms(2), of "\<lambda>k. False" samples]
  have one: "count_list (edges (\<lambda>k. False) samples) key = 1"
    if "map (\<lambda>answers. pressed (answers key)) samples =
            [False, True, True, True, False, False]"
    using count that by simp
  have alone: "on_controller (main_loop fm os samples (controller, key_states0)) =
            dispatch fm os key controller"
    if "map (\<lambda>answers. pressed (answers key)) samples =
            [False, True, True, True, False, False]"
      and "\<forall>answers \<in> set samples. \<forall>k \<in> fst ` set hotkeys.
             k \<noteq> key \<longrightarrow> \<not> pressed (answers k)"
  proof -
    have "edges (\<lambda>k. False) samples = [key]"
      using edges_of_one_key [OF that(2), of "\<lambda>k. False"] one [OF that(1)] by simp
    then show ?thesis using loop by (simp add: run_all_one)
  qed
  show ?thesis
  proof (intro conjI impI)
    show "on_controller (main_loop fm os samples (controller, key_states0)) =
           run_all (map (dispatch fm os) (edges (\<lambda>k. False) samples)) controller"
      by (rule loop)
    show "count_list (edges (\<lambda>k. False) samples) key =
           transitions (False # map (\<lambda>answers. pressed (answers key)) samples)"
      by (rule count)
  qed (use one alone in \<open>simp_all add: dispatch_commands\<close>)
qed

theorem hotkey_command_runs_once_per_rising_edge_witness:
  "running default_controller \<and> (0x72::int) \<in> fst ` set hotkeys \<and>
   map (\<lambda>answers. pressed (answers 0x72)) f3_pressed_once =
     [False, True, True, True, False, False] \<and>
   list_all (\<lambda>answers. list_all (\<lambda>k. k = 0x72 \<or> \<not> pressed (answers k)) (map fst hotkeys))
     f3_pressed_once \<and>
   transitions (False # map (\<lambda>answers. pressed (answers 0x72)) f3_pressed_once) = 1 \<and>
   on_controller (main_loop exact_fm two_displays f3_pressed_once
       (default_controller, key_states0)) =
     change_gamma exact_fm two_displays (lit_0_1 exact_fm) default_controller \<and>
   current_gamma (fst (state_of (main_loop exact_fm two_displays f3_pressed_once
     (default_controller, key_states0)))) = 21 / 10 \<and>
   writes (calls_of (main_loop exact_fm two_displays f3_pressed_once
     (default_controller, key_states0))) =
     [[(''gamma'', JNum (21 / 10)), (''color_mode'', JStr ''all''),
       (''hotkeys'', JObj [(''toggle'', JStr ''F2''), (''increase'', JStr ''F3''),
                          (''decrease'', JStr ''F4''), (''cycle_color'', JStr ''F5'')])]]"
proof -
  have run: "running default_controller" by (simp add: default_controller_def)
  have key: "(0x72::int) \<in> fst ` set hotkeys" by (simp add: hotkeys_def)
  have others: "list_all (\<lambda>answers. list_all (\<lambda>k. k = 0x72 \<or> \<not> pressed (answers k))
      (map fst hotkeys)) f3_pressed_once"
    using f3_pressed_once_others by (auto simp add: list_all_iff)
  note inst = hotkey_command_runs_once_per_rising_edge
    [OF run key, of exact_fm two_displays f3_pressed_once]
  note cmd = inst [THEN conjunct2, THEN conjunct2, THEN conjunct1]
  note imp = inst [THEN conjunct2, THEN conjunct2, THEN conjunct2, THEN conjunct2,
      THEN conjunct2, THEN conjunct2, THEN conjunct2]
  have "on_controller (main_loop exact_fm two_displays f3_pressed_once
       (default_controller, key_states0)) =
     dispatch exact_fm two_displays 0x72 default_controller"
    by (rule mp [OF imp]) (rule conjI [OF f3_pressed_once_samples f3_pressed_once_others])
  then have loop: "on_controller (main_loop exact_fm two_displays f3_pressed_once
       (default_controller, key_states0)) =
     change_gamma exact_fm two_displays (lit_0_1 exact_fm) default_controller"
    unfolding cmd .
  have edge: "transitions (False # map (\<lambda>answers. pressed (answers 0x72)) f3_pressed_once) = 1"
    by (simp add: f3_pressed_once_samples)
  have "current_gamma (fst (state_of (main_loop exact_fm two_displays f3_pressed_once
      (default_controller, key_states0)))) = 21 / 10"
    using arg_cong [OF loop, of "\<lambda>r. current_gamma (state_of r)"]
    by (simp add: change_gamma_default_controller)
  moreover have "writes (calls_of (main_loop exact_fm two_displays f3_pressed_once
      (default_controller, key_states0))) =
     [[(''gamma'', JNum (21 / 10)), (''color_mode'', JStr ''all''),
       (''hotkeys'', JObj [(''toggle'', JStr ''F2''), (''increase'', JStr ''F3''),
                          (''decrease'', JStr ''F4''), (''cycle_color'', JStr ''F5'')])]]"
    using arg_cong [OF loop, of "\<lambda>r. writes (calls_of r)"]
    by (simp add: change_gamma_default_controller)
  ultimately show ?thesis
    using run key f3_pressed_once_samples others edge loop by simp
qed

text \<open>
  C7 as stated fails when a key is held down as the loop starts. The one iteration that
  runs is preceded by no other, so the key's samples hold no transition between
  consecutive iterations; yet the loop runs the key's command: the gamma goes from 2.0
  to 2.1 and the configuration is written.
\<close>

theorem hotkey_claim_counterexample:
  "f3_held_at_start = [f3_down] \<and> pressed (f3_down 0x72) \<and>
   transitions [pressed (f3_down 0x72)] = 0 \<and>
   on_controller (main_loop exact_fm two_displays f3_held_at_start
       (default_controller, key_states0)) =
     change_gamma exact_fm two_displays (lit_0_1 exact_fm) default_controller \<and>
   current_gamma default_controller = 2 \<and>
   current_gamma (fst (state_of (main_loop exact_fm two_displays f3_held_at_start
     (default_controller, key_states0)))) = 21 / 10 \<and>
   writes (calls_of (main_loop exact_fm two_displays f3_held_at_start
     (default_controller, key_states0))) =
     [[(''gamma'', JNum (21 / 10)), (''color_mode'', JStr ''all''),
       (''hotkeys'', JObj [(''toggle'', JStr ''F2''), (''increase'', JStr ''F3''),
                          (''decrease'', JStr ''F4''), (''cycle_color'', JStr ''F5'')])]]"
proof -
  have run: "running default_controller" by (simp add: default_controller_def)
  have loop: "on_controller (main_loop exact_fm two_displays f3_held_at_start
       (default_controller, key_states0)) =
     change_gamma exact_fm two_displays (lit_0_1 exact_fm) default_controller"
    using main_loop_from_start [OF run, of exact_fm two_displays f3_held_at_start]
    by (simp add: f3_held_at_start_edges run_all_one dispatch_commands)
  have "current_gamma (fst (state_of (main_loop exact_fm two_displays f3_held_at_start
      (default_controller, key_states0)))) = 21 / 10"
    using arg_cong [OF loop, of "\<lambda>r. current_gamma (state_of r)"]
    by (simp add: change_gamma_default_controller)
  moreover have "writes (calls_of (main_loop exact_fm two_displays f3_held_at_start
      (default_controller, key_states0))) =
     [[(''gamma'', JNum (21 / 10)), (''color_mode'', JStr ''all''),
       (''hotkeys'', JObj [(''toggle'', JStr ''F2''), (''increase'', JStr ''F3''),
                          (''decrease'', JStr ''F4''), (''cycle_color'', JStr ''F5'')])]]"
    using arg_cong [OF loop, of "\<lambda>r. writes (calls_of r)"]
    by (simp add: change_gamma_default_controller)
  moreover have "f3_held_at_start = [f3_down]" "pressed (f3_down 0x72)"
    "current_gamma default_controller = 2"
    by (simp_all add: f3_held_at_start_def f3_down_def pressed_def default_controller_def)
  ultimately show ?thesis using loop by simp
qed

end
